theory Spec2Isabelle
  imports Main "HOL-Library.Word"
begin

section \<open>JavaScript values\<close>

text \<open>
  A JavaScript string is a sequence of UTF-16 code units; \<open>length\<close> counts code units,
  as \<open>String.prototype.length\<close> does. An ASCII literal of the source is written
  \<open>ascii ''...''\<close>.
\<close>

type_synonym jschar = "16 word"
type_synonym jsstring = "jschar list"

definition cu :: "char \<Rightarrow> jschar" where
  "cu c = of_nat (of_char c)"

definition ascii :: "string \<Rightarrow> jsstring" where
  "ascii s = map cu s"

text \<open>
  Numbers are IEEE doubles in the source. No function modelled here computes with a
  number: a number is only ever tested for its type, so its value is kept as an integer
  tag.
\<close>

datatype jsval =
    JUndefined
  | JNull
  | JBool bool
  | JNum int
  | JStr jsstring
  | JArr "jsval list"
  | JObj "(jsstring \<times> jsval) list"

text \<open>\<open>typeof v === 'string'\<close> and \<open>typeof v === 'boolean'\<close>.\<close>

fun is_string :: "jsval \<Rightarrow> bool" where
  "is_string (JStr s) = True"
| "is_string v = False"

fun is_boolean :: "jsval \<Rightarrow> bool" where
  "is_boolean (JBool b) = True"
| "is_boolean v = False"

text \<open>
  \<open>!v\<close>: the falsy values are undefined, null, false, 0, NaN and the empty string.
  A number is never a string, so every test of the source that asks for falsiness
  rejects a number on its type whatever its value.
\<close>

fun falsy :: "jsval \<Rightarrow> bool" where
  "falsy JUndefined = True"
| "falsy JNull = True"
| "falsy (JBool b) = (\<not> b)"
| "falsy (JNum n) = (n = 0)"
| "falsy (JStr s) = (s = [])"
| "falsy (JArr vs) = False"
| "falsy (JObj kvs) = False"

text \<open>
  \<open>String.prototype.trim\<close> removes the code units of WhiteSpace and LineTerminator
  from both ends.
\<close>

definition is_ws :: "jschar \<Rightarrow> bool" where
  "is_ws c \<longleftrightarrow>
     (0x09 \<le> c \<and> c \<le> 0x0D) \<or> c = 0x20 \<or> c = 0xA0 \<or> c = 0x1680
     \<or> (0x2000 \<le> c \<and> c \<le> 0x200A) \<or> c = 0x2028 \<or> c = 0x2029 \<or> c = 0x202F
     \<or> c = 0x205F \<or> c = 0x3000 \<or> c = 0xFEFF"

definition trim :: "jsstring \<Rightarrow> jsstring" where
  "trim s = rev (dropWhile is_ws (rev (dropWhile is_ws s)))"

text \<open>\<open>Array.prototype.findIndex\<close>; \<open>None\<close> stands for the result \<open>-1\<close>.\<close>

fun findIndex :: "('a \<Rightarrow> bool) \<Rightarrow> 'a list \<Rightarrow> nat option" where
  "findIndex p [] = None"
| "findIndex p (x # xs) =
     (if p x then Some 0 else map_option Suc (findIndex p xs))"

section \<open>Messages and exceptions\<close>

text \<open>
  The message literals of the source are Japanese text; each literal is one constructor
  here, and a template literal that embeds another message takes it as an argument.
  \<open>PlatformMessage\<close> is the message of an exception raised by the browser.
\<close>

datatype message =
    IdNotNonEmptyString      \<comment> \<open>todo.js, validateId\<close>
  | TextNotString            \<comment> \<open>todo.js, validateText, first check\<close>
  | TextEmpty                \<comment> \<open>todo.js, validateText and validation.js, empty check (same literal)\<close>
  | TextOver200              \<comment> \<open>todo.js, validateText, length check\<close>
  | CompletedNotBoolean      \<comment> \<open>todo.js, validateCompleted\<close>
  | CreatedAtNotValidDate    \<comment> \<open>todo.js, validateCreatedAt\<close>
  | InputNotEntered          \<comment> \<open>validation.js, null/undefined check\<close>
  | InputNotString           \<comment> \<open>validation.js, typeof check\<close>
  | InputOver200             \<comment> \<open>validation.js, maximum length\<close>
  | InputUnder1              \<comment> \<open>validation.js, minimum length\<close>
  | InputUnsafe              \<comment> \<open>validation.js, unsafe characters\<close>
  | StorageQuota             \<comment> \<open>storage.js, QuotaExceededError branch\<close>
  | StorageSaveFailed message  \<comment> \<open>storage.js, fallback failed, with error.message\<close>
  | StorageClearFailed message \<comment> \<open>storage.js, clearTodos, with error.message\<close>
  | StoredFormatInvalid      \<comment> \<open>storage.js, stored data is not an array\<close>
  | IdNotString              \<comment> \<open>app.js, id check of toggleTodo and deleteTodo\<close>
  | TaskNotFound             \<comment> \<open>app.js, findIndex gave -1\<close>
  | SaveFailed "message option" \<comment> \<open>app.js, with saveResult.error\<close>
  | AddFailed message        \<comment> \<open>app.js, catch of addTodo, with error.message\<close>
  | ToggleFailed message     \<comment> \<open>app.js, catch of toggleTodo\<close>
  | DeleteFailed message     \<comment> \<open>app.js, catch of deleteTodo\<close>
  | ClearFailed "message option" \<comment> \<open>app.js, clearAllTodos, with clearResult.error\<close>
  | WarnStorageUnavailable   \<comment> \<open>app.js, initialize, fallback storage in use\<close>
  | WarnLoadFailed           \<comment> \<open>app.js, initialize, load reported failure\<close>
  | WarnInitError            \<comment> \<open>app.js, initialize, catch\<close>
  | WarnRecovered            \<comment> \<open>app.js, attemptStorageRecovery, data saved again\<close>
  | WarnFallbackInUse        \<comment> \<open>app.js, attemptStorageRecovery, fallback mode\<close>
  | PlatformMessage jsstring

text \<open>A thrown value: its \<open>name\<close> and its \<open>message\<close>.\<close>

datatype exn = Exn (exn_name: jsstring) (exn_message: message)

definition Error :: "message \<Rightarrow> exn" where
  "Error m = Exn (ascii ''Error'') m"

definition TypeError :: "message \<Rightarrow> exn" where
  "TypeError m = Exn (ascii ''TypeError'') m"

section \<open>The platform\<close>

text \<open>
  Two functions of the host are parameters of the model. \<open>Date_new v\<close> is the time
  value (milliseconds since the epoch) of \<open>new Date(v)\<close>, or \<open>None\<close> when the result
  is an Invalid Date; which strings parse is implementation-defined outside the ISO
  format. \<open>toISOString t\<close> is the text \<open>Date.prototype.toISOString\<close> gives for the
  valid time value \<open>t\<close>.
\<close>

record platform =
  Date_new :: "jsval \<Rightarrow> int option"
  toISOString :: "int \<Rightarrow> jsstring"

section \<open>Todo (todo.js)\<close>

text \<open>
  An instance of class Todo. \<open>createdAt\<close> holds the time value of the Date object;
  the constructor admits valid dates only.
\<close>

record Todo =
  todo_id :: jsstring
  todo_text :: jsstring
  completed :: bool
  createdAt :: int

text \<open>The string behind a value known to be a string, the boolean behind a boolean.\<close>

fun the_string :: "jsval \<Rightarrow> jsstring" where
  "the_string (JStr s) = s"
| "the_string v = []"

fun the_boolean :: "jsval \<Rightarrow> bool" where
  "the_boolean (JBool b) = b"
| "the_boolean v = False"

fun validateId :: "jsval \<Rightarrow> exn + unit" where
  "validateId v =
     (if falsy v \<or> \<not> is_string v \<or> length (trim (the_string v)) = 0
      then Inl (Error IdNotNonEmptyString) else Inr ())"

fun validateText :: "jsval \<Rightarrow> exn + unit" where
  "validateText v =
     (if falsy v \<or> \<not> is_string v then Inl (Error TextNotString)
      else
        (let trimmedText = trim (the_string v) in
         if length trimmedText = 0 then Inl (Error TextEmpty)
         else if length trimmedText > 200 then Inl (Error TextOver200)
         else Inr ()))"

fun validateCompleted :: "jsval \<Rightarrow> exn + unit" where
  "validateCompleted v =
     (if \<not> is_boolean v then Inl (Error CompletedNotBoolean) else Inr ())"

text \<open>The argument is a Date object: \<open>Some t\<close> a valid one, \<open>None\<close> an Invalid Date.\<close>

fun validateCreatedAt :: "int option \<Rightarrow> exn + unit" where
  "validateCreatedAt None = Inl (Error CreatedAtNotValidDate)"
| "validateCreatedAt (Some t) = Inr ()"

text \<open>
  The constructor. The parameter \<open>completed\<close> has the default \<open>false\<close>, which
  JavaScript also takes when the argument is \<open>undefined\<close>. The default of
  \<open>createdAt\<close>, \<open>new Date()\<close>, is passed by the caller as the current time.
  Once the four checks have passed, the arguments are a string, a string, a boolean
  and a valid date, which \<open>the_string\<close>, \<open>the_boolean\<close> and \<open>the\<close> read.
\<close>

definition Todo_new :: "jsval \<Rightarrow> jsval \<Rightarrow> jsval \<Rightarrow> int option \<Rightarrow> exn + Todo" where
  "Todo_new idv textv completedv created =
     (let completedv = (if completedv = JUndefined then JBool False else completedv) in
      case validateId idv of Inl e \<Rightarrow> Inl e | Inr _ \<Rightarrow>
      (case validateText textv of Inl e \<Rightarrow> Inl e | Inr _ \<Rightarrow>
      (case validateCompleted completedv of Inl e \<Rightarrow> Inl e | Inr _ \<Rightarrow>
      (case validateCreatedAt created of Inl e \<Rightarrow> Inl e | Inr _ \<Rightarrow>
         Inr \<lparr>todo_id = the_string idv, todo_text = the_string textv,
              completed = the_boolean completedv, createdAt = the created\<rparr>))))"

definition toggle :: "Todo \<Rightarrow> exn + Todo" where
  "toggle t =
     Todo_new (JStr (todo_id t)) (JStr (todo_text t)) (JBool (\<not> completed t))
       (Some (createdAt t))"

definition updateText :: "Todo \<Rightarrow> jsval \<Rightarrow> exn + Todo" where
  "updateText t newText =
     Todo_new (JStr (todo_id t)) newText (JBool (completed t)) (Some (createdAt t))"

text \<open>
  A Todo value is well formed when it is what the constructor builds from its own
  fields: every instance the program creates is.
\<close>

definition wellFormed :: "Todo \<Rightarrow> bool" where
  "wellFormed t \<longleftrightarrow>
     Todo_new (JStr (todo_id t)) (JStr (todo_text t)) (JBool (completed t)) (Some (createdAt t))
       = Inr t"

text \<open>The wire shape written by \<open>toJSON\<close>.\<close>

record persisted =
  p_id :: jsstring
  p_text :: jsstring
  p_completed :: bool
  p_createdAt :: jsstring

definition toJSON :: "platform \<Rightarrow> Todo \<Rightarrow> persisted" where
  "toJSON P t =
     \<lparr>p_id = todo_id t, p_text = todo_text t, p_completed = completed t,
      p_createdAt = toISOString P (createdAt t)\<rparr>"

text \<open>
  Reading a property of a value that came out of \<open>JSON.parse\<close>: on null (and
  undefined) the access throws a TypeError, on an object it gives the member or
  undefined, and on every other value the four names used here are undefined. An
  object lists its members in the order of the text; of two members with the same name
  \<open>JSON.parse\<close> keeps the last.
\<close>

fun get_prop :: "jsval \<Rightarrow> jsstring \<Rightarrow> exn + jsval" where
  "get_prop JNull k = Inl (TypeError (PlatformMessage k))"
| "get_prop JUndefined k = Inl (TypeError (PlatformMessage k))"
| "get_prop (JObj kvs) k =
     Inr (case map_of (rev kvs) k of None \<Rightarrow> JUndefined | Some v \<Rightarrow> v)"
| "get_prop v k = Inr JUndefined"

definition fromJSON :: "platform \<Rightarrow> jsval \<Rightarrow> exn + Todo" where
  "fromJSON P json =
     (case get_prop json (ascii ''id'') of Inl e \<Rightarrow> Inl e | Inr idv \<Rightarrow>
     (case get_prop json (ascii ''text'') of Inl e \<Rightarrow> Inl e | Inr textv \<Rightarrow>
     (case get_prop json (ascii ''completed'') of Inl e \<Rightarrow> Inl e | Inr completedv \<Rightarrow>
     (case get_prop json (ascii ''createdAt'') of Inl e \<Rightarrow> Inl e | Inr createdv \<Rightarrow>
        Todo_new idv textv completedv (Date_new P createdv)))))"

text \<open>
  \<open>generateId\<close>: \<open>'todo_' + Date.now() + '_' + Math.random().toString(36).substr(2, 9)\<close>.
  The clock reading and the random suffix are inputs. A clock reading is an integer
  far below \<open>10^21\<close>, which JavaScript prints in plain decimal digits.
\<close>

fun digits :: "nat \<Rightarrow> jsstring" where
  "digits n =
     (if n < 10 then [cu CHR ''0'' + of_nat n]
      else digits (n div 10) @ [cu CHR ''0'' + of_nat (n mod 10)])"

definition number_toString :: "int \<Rightarrow> jsstring" where
  "number_toString i = (if i < 0 then cu CHR ''-'' # digits (nat (- i)) else digits (nat i))"

definition generateId :: "int \<Rightarrow> jsstring \<Rightarrow> jsstring" where
  "generateId now random = ascii ''todo_'' @ number_toString now @ ascii ''_'' @ random"

section \<open>Regular expressions\<close>

text \<open>
  The four patterns of \<open>containsUnsafeCharacters\<close> use character classes, sequence,
  the greedy star and plus, a negative lookahead and the word boundary. \<open>ends r (pv, cs)\<close>
  lists the states a match of \<open>r\<close> can end in when it starts with \<open>cs\<close> still to read
  and \<open>pv\<close> the code unit just before. A backtracking matcher finds a match exactly when
  one exists, so \<open>RegExp.prototype.test\<close> on a fresh pattern (lastIndex 0) is: some
  start position has an end state. An iteration of a star that consumes nothing is not
  continued, as in ECMAScript.
\<close>

datatype regex =
    Class "jschar \<Rightarrow> bool"
  | Seq regex regex
  | Star regex
  | NotAhead regex
  | WordBoundary
  | Eps

type_synonym mstate = "jschar option \<times> jsstring"

definition is_word :: "jschar \<Rightarrow> bool" where
  "is_word c \<longleftrightarrow>
     (0x41 \<le> c \<and> c \<le> 0x5A) \<or> (0x61 \<le> c \<and> c \<le> 0x7A) \<or> (0x30 \<le> c \<and> c \<le> 0x39) \<or> c = 0x5F"

fun iterate :: "(mstate \<Rightarrow> mstate list) \<Rightarrow> nat \<Rightarrow> mstate \<Rightarrow> mstate list" where
  "iterate f 0 s = [s]"
| "iterate f (Suc n) s =
     s # concat (map (iterate f n) (filter (\<lambda>s'. length (snd s') < length (snd s)) (f s)))"

fun ends :: "regex \<Rightarrow> mstate \<Rightarrow> mstate list" where
  "ends (Class p) (pv, []) = []"
| "ends (Class p) (pv, c # cs) = (if p c then [(Some c, cs)] else [])"
| "ends (Seq a b) s = concat (map (ends b) (ends a s))"
| "ends (Star r) s = iterate (ends r) (length (snd s)) s"
| "ends (NotAhead r) s = (if ends r s = [] then [s] else [])"
| "ends WordBoundary (pv, cs) =
     (if (case pv of None \<Rightarrow> False | Some c \<Rightarrow> is_word c)
         \<noteq> (case cs of [] \<Rightarrow> False | c # _ \<Rightarrow> is_word c)
      then [(pv, cs)] else [])"
| "ends Eps s = [s]"

fun search :: "regex \<Rightarrow> jschar option \<Rightarrow> jsstring \<Rightarrow> bool" where
  "search r pv [] = (ends r (pv, []) \<noteq> [])"
| "search r pv (c # cs) = (ends r (pv, c # cs) \<noteq> [] \<or> search r (Some c) cs)"

definition test :: "regex \<Rightarrow> jsstring \<Rightarrow> bool" where
  "test r s = search r None s"

text \<open>
  Under the flag \<open>i\<close> (without \<open>u\<close>) both sides are canonicalised with toUpperCase,
  except that a code unit of 128 or more is never mapped below 128. Against an ASCII
  pattern character that leaves exactly its two ASCII cases.
\<close>

definition upper :: "jschar \<Rightarrow> jschar" where
  "upper c = (if 0x61 \<le> c \<and> c \<le> 0x7A then c - 0x20 else c)"

definition chr_i :: "char \<Rightarrow> regex" where
  "chr_i ch = Class (\<lambda>c. upper c = upper (cu ch))"

definition seqs :: "regex list \<Rightarrow> regex" where
  "seqs rs = foldr Seq rs Eps"

definition lit_i :: "string \<Rightarrow> regex" where
  "lit_i w = seqs (map chr_i w)"

definition Plus :: "regex \<Rightarrow> regex" where
  "Plus r = Seq r (Star r)"

definition not_lt :: regex where
  "not_lt = Class (\<lambda>c. c \<noteq> cu CHR ''<'')"

section \<open>InputValidator (validation.js)\<close>

record ValidationResult =
  isValid :: bool
  errorMessage :: "message option"

definition ValidationResult_success :: ValidationResult where
  "ValidationResult_success = \<lparr>isValid = True, errorMessage = None\<rparr>"

definition ValidationResult_error :: "message \<Rightarrow> ValidationResult" where
  "ValidationResult_error m = \<lparr>isValid = False, errorMessage = Some m\<rparr>"

text \<open>
  The patterns, in the order of the array \<open>unsafePatterns\<close>: a script element, an
  iframe element, \<open>javascript:\<close>, and \<open>on\<close> followed by word characters, optional
  white space and \<open>=\<close>. The source writes them
  \<^verbatim>\<open>/<script\b[^<]*(?:(?!<\/script>)<[^<]*)*<\/script>/gi\<close>,
  \<^verbatim>\<open>/<iframe\b[^<]*(?:(?!<\/iframe>)<[^<]*)*<\/iframe>/gi\<close>,
  \<^verbatim>\<open>/javascript:/gi\<close> and
  \<^verbatim>\<open>/on\w+\s*=/gi\<close>.
  The array is built anew at every call, so each \<open>test\<close> starts at lastIndex 0.
\<close>

definition element_re :: "string \<Rightarrow> string \<Rightarrow> regex" where
  "element_re opening closing =
     seqs [lit_i opening, WordBoundary, Star not_lt,
           Star (seqs [NotAhead (lit_i closing), chr_i CHR ''<'', Star not_lt]),
           lit_i closing]"

definition unsafePatterns :: "regex list" where
  "unsafePatterns =
     [element_re ''<script'' ''</script>'',
      element_re ''<iframe'' ''</iframe>'',
      lit_i ''javascript:'',
      seqs [lit_i ''on'', Plus (Class is_word), Star (Class is_ws), chr_i CHR ''='']]"

definition containsUnsafeCharacters :: "jsstring \<Rightarrow> bool" where
  "containsUnsafeCharacters text = list_ex (\<lambda>pattern. test pattern text) unsafePatterns"

definition validateTaskText :: "jsval \<Rightarrow> ValidationResult" where
  "validateTaskText v =
     (if v = JNull \<or> v = JUndefined then ValidationResult_error InputNotEntered
      else if \<not> is_string v then ValidationResult_error InputNotString
      else
        (let trimmedText = trim (the_string v) in
         if length trimmedText = 0 then ValidationResult_error TextEmpty
         else if length trimmedText > 200 then ValidationResult_error InputOver200
         else if length trimmedText < 1 then ValidationResult_error InputUnder1
         else if containsUnsafeCharacters trimmedText then ValidationResult_error InputUnsafe
         else ValidationResult_success))"

text \<open>\<open>s.replace(/c/g, r)\<close> for a single character \<open>c\<close>.\<close>

definition replaceAll :: "jschar \<Rightarrow> jsstring \<Rightarrow> jsstring \<Rightarrow> jsstring" where
  "replaceAll c r s = concat (map (\<lambda>x. if x = c then r else [x]) s)"

definition sanitizeText :: "jsval \<Rightarrow> jsstring" where
  "sanitizeText v =
     (if falsy v \<or> \<not> is_string v then []
      else trim
        (replaceAll (cu (CHR 0x27)) (ascii ''&#x27;'')
        (replaceAll (cu (CHR 0x22)) (ascii ''&quot;'')
        (replaceAll (cu CHR ''>'') (ascii ''&gt;'')
        (replaceAll (cu CHR ''<'') (ascii ''&lt;'')
        (replaceAll (cu CHR ''&'') (ascii ''&amp;'') (the_string v)))))))"

section \<open>The validator in the words of the specification\<close>




section \<open>StorageManager (storage.js)\<close>

text \<open>
  The string that localStorage holds under the key \<open>simple-todo-app-todos\<close> is known
  here by what the source observes of it: whether it is empty, and what \<open>JSON.parse\<close>
  makes of it (a SyntaxError, or a value). \<open>JSON.stringify\<close> of an array of records
  of strings and booleans gives a text that \<open>JSON.parse\<close> reads back as that array.
\<close>

datatype dataString = EmptyString | Malformed | JsonText jsval

definition record_json :: "persisted \<Rightarrow> jsval" where
  "record_json r =
     JObj [(ascii ''id'', JStr (p_id r)), (ascii ''text'', JStr (p_text r)),
           (ascii ''completed'', JBool (p_completed r)),
           (ascii ''createdAt'', JStr (p_createdAt r))]"

definition JSON_stringify :: "persisted list \<Rightarrow> dataString" where
  "JSON_stringify rs = JsonText (JArr (map record_json rs))"

fun JSON_parse :: "dataString \<Rightarrow> exn + jsval" where
  "JSON_parse (JsonText v) = Inr v"
| "JSON_parse d = Inl (Exn (ascii ''SyntaxError'') (PlatformMessage []))"

text \<open>
  The browser's localStorage: the item under the key, and for each of its three
  methods the exception it raises when called now, if any (a full quota, a disabled or
  missing storage).
\<close>

record localStorage =
  item :: "dataString option"
  setItem_raises :: "exn option"
  getItem_raises :: "exn option"
  removeItem_raises :: "exn option"

definition setItem :: "localStorage \<Rightarrow> dataString \<Rightarrow> exn + localStorage" where
  "setItem ls v =
     (case setItem_raises ls of Some e \<Rightarrow> Inl e | None \<Rightarrow> Inr (ls\<lparr>item := Some v\<rparr>))"

definition getItem :: "localStorage \<Rightarrow> exn + dataString option" where
  "getItem ls = (case getItem_raises ls of Some e \<Rightarrow> Inl e | None \<Rightarrow> Inr (item ls))"

definition removeItem :: "localStorage \<Rightarrow> exn + localStorage" where
  "removeItem ls =
     (case removeItem_raises ls of Some e \<Rightarrow> Inl e | None \<Rightarrow> Inr (ls\<lparr>item := None\<rparr>))"

record 'a StorageResult =
  success :: bool
  data :: "'a option"
  error :: "message option"

definition StorageResult_success :: "'a option \<Rightarrow> 'a StorageResult" where
  "StorageResult_success d = \<lparr>success = True, data = d, error = None\<rparr>"

definition StorageResult_error :: "message \<Rightarrow> 'a StorageResult" where
  "StorageResult_error m = \<lparr>success = False, data = None, error = Some m\<rparr>"

record StorageManager =
  isLocalStorageAvailable :: bool
  fallbackData :: "persisted list"

text \<open>
  The probe writes and removes a key of its own, so the item is untouched; it reports
  whether both calls went through.
\<close>

definition checkLocalStorageSupport :: "localStorage \<Rightarrow> bool" where
  "checkLocalStorageSupport ls \<longleftrightarrow> setItem_raises ls = None \<and> removeItem_raises ls = None"

definition StorageManager_new :: "localStorage \<Rightarrow> StorageManager" where
  "StorageManager_new ls =
     \<lparr>isLocalStorageAvailable = checkLocalStorageSupport ls, fallbackData = []\<rparr>"

text \<open>
  \<open>saveTodos\<close>. The argument is a list of Todo instances, so the two guards on its shape
  (not an array, an element that is no Todo) do not fire. In the handler, a
  QuotaExceededError returns at once; any other exception leads to the fallback write,
  whose own handler cannot be reached because \<open>toJSON\<close> of a Todo does not throw.
\<close>

definition saveTodos ::
  "platform \<Rightarrow> localStorage \<Rightarrow> StorageManager \<Rightarrow> Todo list
     \<Rightarrow> unit StorageResult \<times> StorageManager \<times> localStorage" where
  "saveTodos P ls sm todos =
     (let todosJson = map (toJSON P) todos;
          dataString = JSON_stringify todosJson
      in if isLocalStorageAvailable sm then
           (case setItem ls dataString of
              Inr ls' \<Rightarrow> (StorageResult_success None, sm, ls')
            | Inl e \<Rightarrow>
                if exn_name e = ascii ''QuotaExceededError''
                then (StorageResult_error StorageQuota, sm, ls)
                else (StorageResult_success None,
                      sm\<lparr>fallbackData := map (toJSON P) todos\<rparr>, ls))
         else (StorageResult_success None, sm\<lparr>fallbackData := todosJson\<rparr>, ls))"

text \<open>
  \<open>loadTodos\<close>. \<open>readDataString\<close> is its first step, the text it reads from
  localStorage or, in fallback mode, from the buffer. Every exception inside (from
  \<open>getItem\<close>, from \<open>JSON.parse\<close>, the one thrown for a value that is no array) ends in
  the handler that returns an empty list. A record whose \<open>fromJSON\<close> throws becomes
  null and is filtered out.
\<close>

definition restore :: "platform \<Rightarrow> jsval list \<Rightarrow> Todo list" where
  "restore P todosJson =
     map the (filter (\<lambda>todo. todo \<noteq> None)
       (map (\<lambda>todoJson. case fromJSON P todoJson of Inr t \<Rightarrow> Some t | Inl e \<Rightarrow> None)
          todosJson))"

definition readDataString :: "localStorage \<Rightarrow> StorageManager \<Rightarrow> exn + dataString option" where
  "readDataString ls sm =
     (if isLocalStorageAvailable sm then getItem ls
      else Inr (if length (fallbackData sm) > 0
                then Some (JSON_stringify (fallbackData sm)) else None))"

definition loadTodos ::
  "platform \<Rightarrow> localStorage \<Rightarrow> StorageManager \<Rightarrow> (Todo list) StorageResult" where
  "loadTodos P ls sm =
     (case readDataString ls sm of
        Inl e \<Rightarrow> StorageResult_success (Some [])
      | Inr dataString \<Rightarrow>
          if dataString = None \<or> dataString = Some EmptyString
          then StorageResult_success (Some [])
          else
            (case JSON_parse (the dataString) of
               Inl e \<Rightarrow> StorageResult_success (Some [])
             | Inr (JArr todosJson) \<Rightarrow> StorageResult_success (Some (restore P todosJson))
             | Inr _ \<Rightarrow> StorageResult_success (Some [])))"

definition clearTodos ::
  "localStorage \<Rightarrow> StorageManager \<Rightarrow> unit StorageResult \<times> StorageManager \<times> localStorage" where
  "clearTodos ls sm =
     (case (if isLocalStorageAvailable sm then removeItem ls else Inr ls) of
        Inl e \<Rightarrow> (StorageResult_error (StorageClearFailed (exn_message e)), sm, ls)
      | Inr ls' \<Rightarrow> (StorageResult_success None, sm\<lparr>fallbackData := []\<rparr>, ls'))"

text \<open>
  \<open>getStorageInfo\<close>, without the size of the stored text, which this model of the item
  does not keep.
\<close>

record StorageInfo =
  info_isLocalStorageAvailable :: bool
  info_fallbackDataCount :: nat
  info_hasLocalStorageData :: "bool option"
  info_localStorageError :: "message option"

definition getStorageInfo :: "localStorage \<Rightarrow> StorageManager \<Rightarrow> StorageInfo" where
  "getStorageInfo ls sm =
     (let info = \<lparr>info_isLocalStorageAvailable = isLocalStorageAvailable sm,
                  info_fallbackDataCount = length (fallbackData sm),
                  info_hasLocalStorageData = None,
                  info_localStorageError = None\<rparr>
      in if isLocalStorageAvailable sm then
           (case getItem ls of
              Inr d \<Rightarrow> info\<lparr>info_hasLocalStorageData :=
                               Some (d \<noteq> None \<and> d \<noteq> Some EmptyString)\<rparr>
            | Inl e \<Rightarrow> info\<lparr>info_localStorageError := Some (exn_message e)\<rparr>)
         else info)"

section \<open>The records that a load keeps\<close>

text \<open>
  The conditions under which a stored record becomes a task, written out member by
  member, and the task it becomes. \<open>stored_field j k\<close> is the member \<open>k\<close> of the
  record \<open>j\<close>, undefined when \<open>j\<close> has no such member or is no object. A record is
  acceptable when its id is a string with a character that is no white space, its text
  is a string of trimmed length 1 to 200, its completed member is a boolean or absent,
  and its createdAt gives a valid date. Nothing is asked of the content of the text.
  These are stated on their own, without \<open>fromJSON\<close> and the constructor, and are
  compared with them below.
\<close>

fun stored_field :: "jsval \<Rightarrow> string \<Rightarrow> jsval" where
  "stored_field (JObj kvs) k = (case map_of (rev kvs) (ascii k) of None \<Rightarrow> JUndefined | Some v \<Rightarrow> v)"
| "stored_field j k = JUndefined"

definition acceptable :: "platform \<Rightarrow> jsval \<Rightarrow> bool" where
  "acceptable P j \<longleftrightarrow>
     (case stored_field j ''id'' of JStr s \<Rightarrow> 1 \<le> length (trim s) | _ \<Rightarrow> False) \<and>
     (case stored_field j ''text'' of
        JStr s \<Rightarrow> 1 \<le> length (trim s) \<and> length (trim s) \<le> 200 | _ \<Rightarrow> False) \<and>
     (case stored_field j ''completed'' of
        JUndefined \<Rightarrow> True | JBool b \<Rightarrow> True | _ \<Rightarrow> False) \<and>
     Date_new P (stored_field j ''createdAt'') \<noteq> None"

definition task_of :: "platform \<Rightarrow> jsval \<Rightarrow> Todo" where
  "task_of P j =
     \<lparr>todo_id = the_string (stored_field j ''id''),
      todo_text = the_string (stored_field j ''text''),
      completed = the_boolean (stored_field j ''completed''),
      createdAt = the (Date_new P (stored_field j ''createdAt''))\<rparr>"

section \<open>TodoApp (app.js)\<close>

text \<open>
  The state of a TodoApp: the array \<open>todos\<close>, its StorageManager and the flag
  \<open>initialized\<close>. \<open>warnings\<close> lists the messages handed to \<open>showStorageWarning\<close>,
  which is all that is kept of the user interface.
\<close>

record TodoApp =
  todos :: "Todo list"
  storageManager :: StorageManager
  initialized :: bool
  warnings :: "message list"

definition TodoApp_new :: "localStorage \<Rightarrow> TodoApp" where
  "TodoApp_new ls =
     \<lparr>todos = [], storageManager = StorageManager_new ls, initialized = False,
      warnings = []\<rparr>"

definition showStorageWarning :: "message \<Rightarrow> TodoApp \<Rightarrow> TodoApp" where
  "showStorageWarning m app = app\<lparr>warnings := warnings app @ [m]\<rparr>"

text \<open>
  The result objects \<open>{ success, todo?, deletedTodo?, error? }\<close> of the mutating
  operations.
\<close>

record AppResult =
  result_success :: bool
  result_todo :: "Todo option"
  result_deletedTodo :: "Todo option"
  result_error :: "message option"

definition failure :: "message \<Rightarrow> AppResult" where
  "failure m =
     \<lparr>result_success = False, result_todo = None, result_deletedTodo = None,
      result_error = Some m\<rparr>"

text \<open>
  \<open>initialize\<close>. \<open>initialize_with\<close> is its body after the call of \<open>loadTodos\<close>, whose
  outcome it takes: \<open>Inr\<close> the result object, \<open>Inl\<close> an exception caught by the handler
  of \<open>initialize\<close>.
\<close>

definition initialize_with ::
  "exn + (Todo list) StorageResult \<Rightarrow> localStorage \<Rightarrow> TodoApp \<Rightarrow> bool \<times> TodoApp" where
  "initialize_with outcome ls app =
     (case outcome of
        Inr loadResult \<Rightarrow>
          if success loadResult then
            (let app1 = app\<lparr>todos := (case data loadResult of None \<Rightarrow> [] | Some d \<Rightarrow> d),
                           initialized := True\<rparr>;
                 storageInfo = getStorageInfo ls (storageManager app1)
             in (True,
                 if \<not> info_isLocalStorageAvailable storageInfo
                 then showStorageWarning WarnStorageUnavailable app1 else app1))
          else
            (False, showStorageWarning WarnLoadFailed (app\<lparr>todos := [], initialized := True\<rparr>))
      | Inl e \<Rightarrow>
          (False, showStorageWarning WarnInitError (app\<lparr>todos := [], initialized := True\<rparr>)))"

definition initialize :: "platform \<Rightarrow> localStorage \<Rightarrow> TodoApp \<Rightarrow> bool \<times> TodoApp" where
  "initialize P ls app = initialize_with (Inr (loadTodos P ls (storageManager app))) ls app"

text \<open>
  What \<open>addTodo\<close> reads from the clock and the random generator: \<open>Date.now()\<close> and
  \<open>Math.random().toString(36).substr(2, 9)\<close> in \<open>generateId\<close>, and \<open>new Date()\<close> in the
  constructor.
\<close>

record inputs =
  clock_id :: int
  random_suffix :: jsstring
  clock_created :: int

definition addTodo ::
  "platform \<Rightarrow> localStorage \<Rightarrow> inputs \<Rightarrow> TodoApp \<Rightarrow> jsval
     \<Rightarrow> AppResult \<times> TodoApp \<times> localStorage" where
  "addTodo P ls inp app textv =
     (let validationResult = validateTaskText textv in
      if \<not> isValid validationResult
      then (failure (the (errorMessage validationResult)), app, ls)
      else
        (let sanitizedText = sanitizeText textv;
             trimmedText = trim sanitizedText;
             newId = generateId (clock_id inp) (random_suffix inp)
         in case Todo_new (JStr newId) (JStr trimmedText) JUndefined (Some (clock_created inp)) of
              Inl e \<Rightarrow> (failure (AddFailed (exn_message e)), app, ls)
            | Inr newTodo \<Rightarrow>
                (let pushed = todos app @ [newTodo];
                     (saveResult, sm', ls') = saveTodos P ls (storageManager app) pushed
                 in if \<not> success saveResult
                    then (failure (SaveFailed (error saveResult)),
                          app\<lparr>todos := butlast pushed, storageManager := sm'\<rparr>, ls')
                    else (\<lparr>result_success = True, result_todo = Some newTodo,
                           result_deletedTodo = None, result_error = None\<rparr>,
                          app\<lparr>todos := pushed, storageManager := sm'\<rparr>, ls'))))"

definition toggleTodo ::
  "platform \<Rightarrow> localStorage \<Rightarrow> TodoApp \<Rightarrow> jsval \<Rightarrow> AppResult \<times> TodoApp \<times> localStorage" where
  "toggleTodo P ls app idv =
     (if falsy idv \<or> \<not> is_string idv then (failure IdNotString, app, ls)
      else
        (case findIndex (\<lambda>todo. todo_id todo = the_string idv) (todos app) of
           None \<Rightarrow> (failure TaskNotFound, app, ls)
         | Some todoIndex \<Rightarrow>
             (let currentTodo = todos app ! todoIndex in
              case toggle currentTodo of
                Inl e \<Rightarrow> (failure (ToggleFailed (exn_message e)), app, ls)
              | Inr toggledTodo \<Rightarrow>
                  (let replaced = (todos app)[todoIndex := toggledTodo];
                       (saveResult, sm', ls') = saveTodos P ls (storageManager app) replaced
                   in if \<not> success saveResult
                      then (failure (SaveFailed (error saveResult)),
                            app\<lparr>todos := replaced[todoIndex := currentTodo],
                                storageManager := sm'\<rparr>, ls')
                      else (\<lparr>result_success = True, result_todo = Some toggledTodo,
                             result_deletedTodo = None, result_error = None\<rparr>,
                            app\<lparr>todos := replaced, storageManager := sm'\<rparr>, ls')))))"

text \<open>\<open>xs.splice(i, 1)\<close> and \<open>xs.splice(i, 0, x)\<close>.\<close>

definition splice_out :: "nat \<Rightarrow> 'a list \<Rightarrow> 'a list" where
  "splice_out i xs = take i xs @ drop (Suc i) xs"

definition splice_in :: "nat \<Rightarrow> 'a \<Rightarrow> 'a list \<Rightarrow> 'a list" where
  "splice_in i x xs = take i xs @ x # drop i xs"

definition deleteTodo ::
  "platform \<Rightarrow> localStorage \<Rightarrow> TodoApp \<Rightarrow> jsval \<Rightarrow> AppResult \<times> TodoApp \<times> localStorage" where
  "deleteTodo P ls app idv =
     (if falsy idv \<or> \<not> is_string idv then (failure IdNotString, app, ls)
      else
        (case findIndex (\<lambda>todo. todo_id todo = the_string idv) (todos app) of
           None \<Rightarrow> (failure TaskNotFound, app, ls)
         | Some todoIndex \<Rightarrow>
             (let deletedTodo = todos app ! todoIndex;
                  removed = splice_out todoIndex (todos app);
                  (saveResult, sm', ls') = saveTodos P ls (storageManager app) removed
              in if \<not> success saveResult
                 then (failure (SaveFailed (error saveResult)),
                       app\<lparr>todos := splice_in todoIndex deletedTodo removed,
                           storageManager := sm'\<rparr>, ls')
                 else (\<lparr>result_success = True, result_todo = None,
                        result_deletedTodo = Some deletedTodo, result_error = None\<rparr>,
                       app\<lparr>todos := removed, storageManager := sm'\<rparr>, ls'))))"

definition getAllTodos :: "TodoApp \<Rightarrow> Todo list" where
  "getAllTodos app = todos app"

definition getCompletedTodos :: "TodoApp \<Rightarrow> Todo list" where
  "getCompletedTodos app = filter (\<lambda>todo. completed todo) (todos app)"

definition getActiveTodos :: "TodoApp \<Rightarrow> Todo list" where
  "getActiveTodos app = filter (\<lambda>todo. \<not> completed todo) (todos app)"

definition getTodoCount :: "TodoApp \<Rightarrow> nat" where
  "getTodoCount app = length (todos app)"

definition getCompletedCount :: "TodoApp \<Rightarrow> nat" where
  "getCompletedCount app = length (filter (\<lambda>todo. completed todo) (todos app))"

definition getActiveCount :: "TodoApp \<Rightarrow> nat" where
  "getActiveCount app = length (filter (\<lambda>todo. \<not> completed todo) (todos app))"

definition clearAllTodos ::
  "localStorage \<Rightarrow> TodoApp \<Rightarrow> AppResult \<times> TodoApp \<times> localStorage" where
  "clearAllTodos ls app =
     (let backup = todos app;
          (clearResult, sm', ls') = clearTodos ls (storageManager app)
      in if \<not> success clearResult
         then (failure (ClearFailed (error clearResult)),
               app\<lparr>todos := backup, storageManager := sm'\<rparr>, ls')
         else (\<lparr>result_success = True, result_todo = None, result_deletedTodo = None,
                result_error = None\<rparr>,
               app\<lparr>todos := [], storageManager := sm'\<rparr>, ls'))"

text \<open>
  \<open>attemptStorageRecovery\<close> probes localStorage again and, when it is available and
  there are tasks, saves them once more.
\<close>

definition attemptStorageRecovery ::
  "platform \<Rightarrow> localStorage \<Rightarrow> TodoApp \<Rightarrow> bool \<times> TodoApp \<times> localStorage" where
  "attemptStorageRecovery P ls app =
     (let sm1 = (storageManager app)\<lparr>isLocalStorageAvailable := checkLocalStorageSupport ls\<rparr>;
          app1 = app\<lparr>storageManager := sm1\<rparr>
      in if isLocalStorageAvailable sm1 \<and> length (todos app1) > 0 then
           (let (saveResult, sm2, ls2) = saveTodos P ls sm1 (todos app1);
                app2 = app1\<lparr>storageManager := sm2\<rparr>
            in if success saveResult
               then (True, showStorageWarning WarnRecovered app2, ls2)
               else (False, app2, ls2))
         else if \<not> isLocalStorageAvailable sm1
         then (True, showStorageWarning WarnFallbackInUse app1, ls)
         else (False, app1, ls))"

section \<open>Reachable states of the registry\<close>

text \<open>
  A TodoApp is created empty and changes only through its operations; the state of
  localStorage and the inputs at each call are arbitrary. \<open>reachable P L app\<close> says that
  \<open>app\<close> arises this way, and that \<open>L\<close> is the sequence the last \<open>initialize\<close> put
  into the registry (empty when there was none).
\<close>

inductive reachable :: "platform \<Rightarrow> Todo list \<Rightarrow> TodoApp \<Rightarrow> bool" for P :: platform where
  created: "reachable P [] (TodoApp_new ls)"
| initialized: "reachable P L app \<Longrightarrow> initialize P ls app = (b, app') \<Longrightarrow> reachable P (todos app') app'"
| added: "reachable P L app \<Longrightarrow> addTodo P ls inp app v = (r, app', ls') \<Longrightarrow> reachable P L app'"
| toggled: "reachable P L app \<Longrightarrow> toggleTodo P ls app v = (r, app', ls') \<Longrightarrow> reachable P L app'"
| deleted: "reachable P L app \<Longrightarrow> deleteTodo P ls app v = (r, app', ls') \<Longrightarrow> reachable P L app'"
| cleared: "reachable P L app \<Longrightarrow> clearAllTodos ls app = (r, app', ls') \<Longrightarrow> reachable P L app'"
| recovered: "reachable P L app \<Longrightarrow> attemptStorageRecovery P ls app = (b, app', ls') \<Longrightarrow> reachable P L app'"

section \<open>Notions for the proofs about escaped text\<close>

text \<open>
  Notions used in the proofs about escaped text. \<open>escape\<close> replaces each of the five
  characters by its entity, which is what the chain of replacements in \<open>sanitizeText\<close>
  computes. A pattern \<open>transfers\<close> when each of its matches in an escaped text, begun
  where a character of the original begins, is the escaped form of a match in the
  original. \<open>starts1\<close> and \<open>starts2\<close> bound the first and the first two characters
  of every match, and \<open>no_start\<close> says that no match can begin inside a given entity.
\<close>

definition amp :: jschar where "amp = cu CHR ''&''"

definition esc :: "jschar \<Rightarrow> jsstring" where
  "esc c =
     (if c = cu CHR ''&'' then ascii ''&amp;''
      else if c = cu CHR ''<'' then ascii ''&lt;''
      else if c = cu CHR ''>'' then ascii ''&gt;''
      else if c = cu (CHR 0x22) then ascii ''&quot;''
      else if c = cu (CHR 0x27) then ascii ''&#x27;''
      else [c])"

definition escape :: "jsstring \<Rightarrow> jsstring" where
  "escape s = concat (map esc s)"

definition transfers :: "regex \<Rightarrow> bool" where
  "transfers r \<longleftrightarrow>
     (\<forall>pv pv2 s x. x \<in> snd ` set (ends r (pv, escape s)) \<longrightarrow>
        (\<exists>s'. x = escape s' \<and> s' \<in> snd ` set (ends r (pv2, s))))"

definition starts1 :: "(jschar \<Rightarrow> bool) \<Rightarrow> regex \<Rightarrow> bool" where
  "starts1 P r \<longleftrightarrow> (\<forall>pv cs. ends r (pv, cs) \<noteq> [] \<longrightarrow> (\<exists>a t. cs = a # t \<and> P a))"

definition starts2 :: "(jschar \<Rightarrow> bool) \<Rightarrow> (jschar \<Rightarrow> bool) \<Rightarrow> regex \<Rightarrow> bool" where
  "starts2 P1 P2 r \<longleftrightarrow>
     (\<forall>pv cs. ends r (pv, cs) \<noteq> [] \<longrightarrow> (\<exists>a b t. cs = a # b # t \<and> P1 a \<and> P2 b))"

fun no_start :: "(jschar \<Rightarrow> bool) \<Rightarrow> (jschar \<Rightarrow> bool) \<Rightarrow> jsstring \<Rightarrow> bool" where
  "no_start P1 P2 [] = True"
| "no_start P1 P2 [x] = (\<not> P1 x)"
| "no_start P1 P2 (x # y # zs) = ((\<not> P1 x \<or> \<not> P2 y) \<and> no_start P1 P2 (y # zs))"

section \<open>Example values\<close>

text \<open>
  A host fragment for the examples below: it writes every date as the text of the epoch
  and reads only that text back, so it agrees with a real host at the time value 0.
  The storages are one that works, one whose quota is used up, one that refuses writes
  for another reason, and one that is missing altogether.
\<close>

definition iso_epoch :: jsstring where
  "iso_epoch = ascii ''1970-01-01T00:00:00.000Z''"

definition example_host :: platform where
  "example_host =
     \<lparr>Date_new = (\<lambda>v. if v = JStr iso_epoch then Some 0 else None),
      toISOString = (\<lambda>t. iso_epoch)\<rparr>"

definition quota_error :: exn where
  "quota_error = Exn (ascii ''QuotaExceededError'') (PlatformMessage [])"

definition security_error :: exn where
  "security_error = Exn (ascii ''SecurityError'') (PlatformMessage [])"

definition working_storage :: localStorage where
  "working_storage =
     \<lparr>item = None, setItem_raises = None, getItem_raises = None, removeItem_raises = None\<rparr>"

definition full_storage :: localStorage where
  "full_storage = working_storage\<lparr>setItem_raises := Some quota_error\<rparr>"

definition task1 :: Todo where
  "task1 = \<lparr>todo_id = ascii ''1'', todo_text = ascii ''walk'', completed = False, createdAt = 0\<rparr>"

definition task2 :: Todo where
  "task2 = \<lparr>todo_id = ascii ''2'', todo_text = ascii ''read'', completed = True, createdAt = 0\<rparr>"

definition example_app :: TodoApp where
  "example_app =
     \<lparr>todos = [task1, task2],
      storageManager = \<lparr>isLocalStorageAvailable = True, fallbackData = []\<rparr>,
      initialized = True, warnings = []\<rparr>"

definition example_inputs :: inputs where
  "example_inputs =
     \<lparr>clock_id = 0, random_suffix = ascii ''k3j9x2m1q'', clock_created = 0\<rparr>"

definition blocked_storage :: localStorage where
  "blocked_storage = working_storage\<lparr>setItem_raises := Some security_error\<rparr>"

definition missing_storage :: localStorage where
  "missing_storage =
     \<lparr>item = None, setItem_raises = Some (TypeError (PlatformMessage [])),
      getItem_raises = Some (TypeError (PlatformMessage [])),
      removeItem_raises = Some (TypeError (PlatformMessage []))\<rparr>"

definition available_manager :: StorageManager where
  "available_manager = \<lparr>isLocalStorageAvailable = True, fallbackData = []\<rparr>"

definition mixed_storage :: localStorage where
  "mixed_storage =
     working_storage\<lparr>item := Some (JsonText (JArr
        [record_json (toJSON example_host task1), JObj [(ascii ''id'', JNum 5)]]))\<rparr>"

definition garbled_storage :: localStorage where
  "garbled_storage = working_storage\<lparr>item := Some Malformed\<rparr>"

definition ampersands :: jsstring where
  "ampersands = replicate 41 (cu CHR ''&'')"

definition script_storage :: localStorage where
  "script_storage =
     working_storage\<lparr>item := Some (JsonText (JArr
        [JObj [(ascii ''id'', JStr (ascii ''1'')),
               (ascii ''text'', JStr (ascii ''<script>alert(1)</script>'')),
               (ascii ''completed'', JBool False),
               (ascii ''createdAt'', JStr iso_epoch)]]))\<rparr>"

definition script_task :: Todo where
  "script_task =
     \<lparr>todo_id = ascii ''1'', todo_text = ascii ''<script>alert(1)</script>'',
      completed = False, createdAt = 0\<rparr>"

definition script_app :: TodoApp where
  "script_app = snd (initialize example_host script_storage (TodoApp_new script_storage))"

text \<open>A store whose one record has no \<open>completed\<close> member.\<close>

definition bare_storage :: localStorage where
  "bare_storage =
     working_storage\<lparr>item := Some (JsonText (JArr
        [JObj [(ascii ''id'', JStr (ascii ''2'')),
               (ascii ''text'', JStr (ascii ''read'')),
               (ascii ''createdAt'', JStr iso_epoch)]]))\<rparr>"

definition loaded_app :: TodoApp where
  "loaded_app = snd (initialize example_host mixed_storage (TodoApp_new mixed_storage))"

definition toggled_loaded_app :: TodoApp where
  "toggled_loaded_app = loaded_app\<lparr>todos := [task1\<lparr>completed := True\<rparr>]\<rparr>"

text \<open>Two texts of the specification's scenario, as UTF-16 code units.\<close>

definition shopping :: jsstring where
  "shopping = [0x8CB7, 0x3044, 0x7269, 0x306B, 0x884C, 0x304F]"

definition mail :: jsstring where
  "mail = [0x30E1, 0x30FC, 0x30EB, 0x3092, 0x78BA, 0x8A8D, 0x3059, 0x308B]"

section \<open>Facts about the model\<close>

subsection \<open>Lists and strings\<close>

lemma findIndex_Some:
  "findIndex p xs = Some i \<Longrightarrow> i < length xs \<and> p (xs ! i) \<and> (\<forall>j<i. \<not> p (xs ! j))"
proof (induction xs arbitrary: i)
  case Nil
  then show ?case by simp
next
  case (Cons x xs)
  show ?case
  proof (cases "p x")
    case True
    with Cons.prems show ?thesis by simp
  next
    case False
    with Cons.prems obtain k where k: "findIndex p xs = Some k" "i = Suc k" by auto
    from Cons.IH[OF k(1)] False k(2) show ?thesis
      by (auto simp: nth_Cons split: nat.splits)
  qed
qed

lemma findIndex_None: "findIndex p xs = None \<longleftrightarrow> (\<forall>x\<in>set xs. \<not> p x)"
  by (induction xs) auto

lemma findIndex_present:
  "x \<in> f ` set xs \<Longrightarrow> \<exists>i. findIndex (\<lambda>t. f t = x) xs = Some i"
  by (cases "findIndex (\<lambda>t. f t = x) xs") (auto simp: findIndex_None)

lemma findIndex_update:
  "i < length xs \<Longrightarrow> p y = p (xs ! i) \<Longrightarrow> findIndex p (xs[i := y]) = findIndex p xs"
  by (induction xs arbitrary: i) (auto split: nat.splits)

lemma splice_in_out: "i < length xs \<Longrightarrow> splice_in i (xs ! i) (splice_out i xs) = xs"
  by (simp add: splice_in_def splice_out_def min_def Cons_nth_drop_Suc)

lemma set_splice_out: "x \<in> set (splice_out i xs) \<Longrightarrow> x \<in> set xs"
  by (auto simp: splice_out_def dest: in_set_takeD in_set_dropD)

lemma ink_dropWhile: "(\<exists>x\<in>set (dropWhile P xs). \<not> P x) \<longleftrightarrow> (\<exists>x\<in>set xs. \<not> P x)"
  by (induction xs) auto

lemma trim_nonempty_iff: "trim s \<noteq> [] \<longleftrightarrow> (\<exists>c\<in>set s. \<not> is_ws c)"
  using ink_dropWhile[of is_ws s] by (simp add: trim_def dropWhile_eq_Nil_conv)

lemma last_dropWhile: "dropWhile P xs \<noteq> [] \<Longrightarrow> last (dropWhile P xs) = last xs"
  by (induction xs) (auto split: if_splits)

lemma trim_trim: "trim (trim s) = trim s"
proof -
  let ?a = "dropWhile is_ws s"
  let ?b = "dropWhile is_ws (rev ?a)"
  have "dropWhile is_ws (rev ?b) = rev ?b"
  proof (cases "?b = []")
    case True
    then have "rev ?b = []" by (simp only: rev.simps)
    then show ?thesis by (simp only: dropWhile.simps)
  next
    case False
    have a: "?a \<noteq> []"
    proof
      assume "?a = []"
      then have "?b = []" by (simp only: rev.simps dropWhile.simps)
      with False show False by contradiction
    qed
    from False have "last ?b = last (rev ?a)" by (rule last_dropWhile)
    with a have "last ?b = hd ?a" by (simp add: last_rev)
    moreover from a have "\<not> is_ws (hd ?a)" by (rule hd_dropWhile)
    ultimately have "\<not> is_ws (hd (rev ?b))" using False by (simp add: hd_rev)
    then show ?thesis using False
      by (metis dropWhile.simps(2) list.collapse rev_is_Nil_conv)
  qed
  then show ?thesis by (simp add: trim_def)
qed

subsection \<open>Todo\<close>

text \<open>
  A well-formed Todo is one with a non-blank id and a text of trimmed length 1 to 200;
  the constructor returns nothing else, and \<open>toggle\<close> of a well-formed Todo succeeds.
\<close>

lemma wellFormed_iff:
  "wellFormed t \<longleftrightarrow>
     trim (todo_id t) \<noteq> [] \<and> trim (todo_text t) \<noteq> [] \<and> length (trim (todo_text t)) \<le> 200"
proof -
  have "trim s \<noteq> [] \<Longrightarrow> s \<noteq> []" for s :: jsstring
    by (auto simp: trim_def)
  then show ?thesis
    by (auto simp: wellFormed_def Todo_new_def Let_def)
qed

lemma Todo_new_wellFormed: "Todo_new i t c d = Inr x \<Longrightarrow> wellFormed x"
  by (cases i; cases t; cases c; cases d)
     (auto simp: Todo_new_def wellFormed_def Let_def split: if_splits)

lemma Todo_new_date:
  "Todo_new i t c (Some d) = Inr x \<Longrightarrow> Todo_new i t c (Some d') = Inr (x\<lparr>createdAt := d'\<rparr>)"
  by (auto simp: Todo_new_def Let_def split: sum.splits if_splits)

lemma toggle_wellFormed:
  "wellFormed t \<Longrightarrow> toggle t = Inr (t\<lparr>completed := \<not> completed t\<rparr>)"
  by (auto simp: wellFormed_def toggle_def Todo_new_def Let_def split: if_splits)

lemma wellFormed_toggled: "wellFormed t \<Longrightarrow> wellFormed (t\<lparr>completed := c\<rparr>)"
  by (simp add: wellFormed_iff)

lemma wellFormed_id_nonempty: "wellFormed t \<Longrightarrow> todo_id t \<noteq> []"
  by (auto simp: wellFormed_iff trim_def)

lemma toggle_text: "toggle t = Inr new \<Longrightarrow> todo_text new = todo_text t"
  by (auto simp: toggle_def Todo_new_def Let_def split: sum.splits if_splits)

lemma added_text:
  "Todo_new i (JStr tx) c d = Inr new \<Longrightarrow> todo_text new = tx"
  by (auto simp: Todo_new_def Let_def split: sum.splits if_splits)

lemma generateId_valid: "validateId (JStr (generateId now random)) = Inr ()"
proof -
  have "\<not> is_ws (cu CHR ''t'')" by (simp add: is_ws_def cu_def)
  then have "\<exists>c\<in>set (generateId now random). \<not> is_ws c"
    by (auto simp: generateId_def ascii_def)
  then have "trim (generateId now random) \<noteq> []" by (simp add: trim_nonempty_iff)
  moreover have "generateId now random \<noteq> []" by (simp add: generateId_def ascii_def)
  ultimately show ?thesis by simp
qed

lemma keys_distinct:
  "ascii ''id'' \<noteq> ascii ''text''" "ascii ''id'' \<noteq> ascii ''completed''"
  "ascii ''id'' \<noteq> ascii ''createdAt''" "ascii ''text'' \<noteq> ascii ''completed''"
  "ascii ''text'' \<noteq> ascii ''createdAt''" "ascii ''completed'' \<noteq> ascii ''createdAt''"
  by (simp_all add: ascii_def cu_def)

lemma get_prop_record:
  "get_prop (record_json r) (ascii ''id'') = Inr (JStr (p_id r))"
  "get_prop (record_json r) (ascii ''text'') = Inr (JStr (p_text r))"
  "get_prop (record_json r) (ascii ''completed'') = Inr (JBool (p_completed r))"
  "get_prop (record_json r) (ascii ''createdAt'') = Inr (JStr (p_createdAt r))"
  using keys_distinct by (simp_all add: record_json_def)

lemma fromJSON_toJSON:
  assumes "wellFormed t" and "Date_new P (JStr (toISOString P (createdAt t))) = Some d"
  shows "fromJSON P (record_json (toJSON P t)) = Inr (t\<lparr>createdAt := d\<rparr>)"
  using assms Todo_new_date[of "JStr (todo_id t)" "JStr (todo_text t)" "JBool (completed t)" "createdAt t" t d]
  by (simp add: fromJSON_def get_prop_record toJSON_def wellFormed_def)

lemma fromJSON_wellFormed: "fromJSON P j = Inr t \<Longrightarrow> wellFormed t"
  by (auto simp: fromJSON_def split: sum.splits dest: Todo_new_wellFormed)

text \<open>
  \<open>fromJSON\<close> accepts exactly the acceptable records, each as the task of its members.
\<close>

lemma trim_nonempty_string: "trim s \<noteq> [] \<Longrightarrow> s \<noteq> []"
  by (auto simp: trim_def)

lemma Todo_new_Inr_iff:
  "Todo_new i t c d = Inr x \<longleftrightarrow>
     (case i of JStr s \<Rightarrow> 1 \<le> length (trim s) | _ \<Rightarrow> False) \<and>
     (case t of JStr s \<Rightarrow> 1 \<le> length (trim s) \<and> length (trim s) \<le> 200 | _ \<Rightarrow> False) \<and>
     (case c of JUndefined \<Rightarrow> True | JBool b \<Rightarrow> True | _ \<Rightarrow> False) \<and> d \<noteq> None \<and>
     x = \<lparr>todo_id = the_string i, todo_text = the_string t, completed = the_boolean c,
           createdAt = the d\<rparr>"
  by (cases i; cases t; cases c; cases d)
     (auto simp: Todo_new_def Let_def Suc_le_eq dest: trim_nonempty_string)

lemma fromJSON_fields:
  "fromJSON P (JObj kvs) =
     Todo_new (stored_field (JObj kvs) ''id'') (stored_field (JObj kvs) ''text'')
       (stored_field (JObj kvs) ''completed'') (Date_new P (stored_field (JObj kvs) ''createdAt''))"
  by (simp add: fromJSON_def)

lemma fromJSON_Inr_iff:
  "fromJSON P j = Inr t \<longleftrightarrow> acceptable P j \<and> t = task_of P j"
proof (cases j)
  case (JObj kvs)
  show ?thesis
    unfolding JObj fromJSON_fields Todo_new_Inr_iff acceptable_def task_of_def by blast
qed (simp_all add: fromJSON_def Todo_new_def acceptable_def)

lemma fromJSON_acceptable:
  "acceptable P j \<Longrightarrow> fromJSON P j = Inr (task_of P j)"
  by (simp add: fromJSON_Inr_iff)

lemma fromJSON_unacceptable:
  "\<not> acceptable P j \<Longrightarrow> \<exists>e. fromJSON P j = Inl e"
  using fromJSON_Inr_iff[of P j] by (cases "fromJSON P j") auto

lemma toggle_fields:
  "toggle t = Inr new \<Longrightarrow>
     todo_id new = todo_id t \<and> todo_text new = todo_text t \<and> createdAt new = createdAt t"
  by (auto simp: toggle_def Todo_new_def Let_def split: sum.splits if_splits)

subsection \<open>Escaping\<close>

text \<open>
  \<open>sanitizeText\<close> of a non-empty string is the escaped form of the trimmed string: the
  five replacements act character by character, and trimming commutes with them because
  no entity begins or ends with white space.
\<close>

lemma set_replaceAll:
  "set (replaceAll c r s) = (set s - {c}) \<union> (if c \<in> set s then set r else {})"
  by (induction s) (auto simp: replaceAll_def)

lemma replaceAll_keeps_ink:
  assumes "\<exists>x\<in>set s. \<not> is_ws x" and "\<exists>y\<in>set r. \<not> is_ws y"
  shows "\<exists>x\<in>set (replaceAll c r s). \<not> is_ws x"
  using assms by (auto simp: set_replaceAll)

lemma entity_ink:
  "\<exists>y\<in>set (ascii ''&amp;''). \<not> is_ws y" "\<exists>y\<in>set (ascii ''&lt;''). \<not> is_ws y"
  "\<exists>y\<in>set (ascii ''&gt;''). \<not> is_ws y" "\<exists>y\<in>set (ascii ''&quot;''). \<not> is_ws y"
  "\<exists>y\<in>set (ascii ''&#x27;''). \<not> is_ws y"
  by (simp_all add: ascii_def cu_def is_ws_def)

lemma sanitizeText_nonempty:
  assumes "trim t \<noteq> []"
  shows "sanitizeText (JStr t) \<noteq> []"
proof -
  from assms have t: "t \<noteq> []" by (auto simp: trim_def)
  from assms have "\<exists>c\<in>set t. \<not> is_ws c" by (simp add: trim_nonempty_iff)
  then have "\<exists>x\<in>set (replaceAll (cu (CHR 0x27)) (ascii ''&#x27;'')
        (replaceAll (cu (CHR 0x22)) (ascii ''&quot;'')
        (replaceAll (cu CHR ''>'') (ascii ''&gt;'')
        (replaceAll (cu CHR ''<'') (ascii ''&lt;'')
        (replaceAll (cu CHR ''&'') (ascii ''&amp;'') t))))). \<not> is_ws x"
    by (intro replaceAll_keeps_ink entity_ink)
  with t show ?thesis
    by (simp add: sanitizeText_def trim_nonempty_iff)
qed

lemma sanitizeText_trimmed: "trim (sanitizeText v) = sanitizeText v"
  by (simp add: sanitizeText_def trim_trim) (simp add: trim_def)

lemma replaceAll_append: "replaceAll c r (xs @ ys) = replaceAll c r xs @ replaceAll c r ys"
  by (simp add: replaceAll_def)

lemma replaceAll_concat: "replaceAll c r (concat xss) = concat (map (replaceAll c r) xss)"
  by (induction xss) (simp_all add: replaceAll_append, simp add: replaceAll_def)

lemma replaceAll_map: "replaceAll c r (concat (map f s)) = concat (map (\<lambda>x. replaceAll c r (f x)) s)"
  by (simp add: replaceAll_concat comp_def)

lemma esc_chain:
  "replaceAll (cu (CHR 0x27)) (ascii ''&#x27;'')
     (replaceAll (cu (CHR 0x22)) (ascii ''&quot;'')
     (replaceAll (cu CHR ''>'') (ascii ''&gt;'')
     (replaceAll (cu CHR ''<'') (ascii ''&lt;'')
     (if x = cu CHR ''&'' then ascii ''&amp;'' else [x])))) = esc x"
  by (simp add: esc_def replaceAll_def ascii_def cu_def)

lemma sanitize_chain:
  "replaceAll (cu (CHR 0x27)) (ascii ''&#x27;'')
     (replaceAll (cu (CHR 0x22)) (ascii ''&quot;'')
     (replaceAll (cu CHR ''>'') (ascii ''&gt;'')
     (replaceAll (cu CHR ''<'') (ascii ''&lt;'')
     (replaceAll (cu CHR ''&'') (ascii ''&amp;'') s)))) = escape s"
proof -
  have "replaceAll (cu CHR ''&'') (ascii ''&amp;'') s
      = concat (map (\<lambda>x. if x = cu CHR ''&'' then ascii ''&amp;'' else [x]) s)"
    by (simp add: replaceAll_def)
  then show ?thesis
    by (simp only: replaceAll_map esc_chain escape_def)
qed

lemma esc_cases: "esc c = [c] \<or> (\<exists>t. esc c = amp # t)"
  by (simp add: esc_def amp_def ascii_def)

lemma esc_ws: "is_ws c \<Longrightarrow> esc c = [c]"
  by (auto simp: esc_def is_ws_def cu_def)

lemma esc_ink: "\<not> is_ws c \<Longrightarrow> esc c \<noteq> [] \<and> \<not> is_ws (hd (esc c)) \<and> \<not> is_ws (last (esc c))"
  by (simp add: esc_def ascii_def) (simp add: is_ws_def cu_def)

lemma dropWhile_escape: "dropWhile is_ws (escape s) = escape (dropWhile is_ws s)"
proof (induction s)
  case Nil
  then show ?case by (simp add: escape_def)
next
  case (Cons c cs)
  show ?case
  proof (cases "is_ws c")
    case True
    with Cons show ?thesis by (simp add: escape_def esc_ws)
  next
    case False
    from esc_ink[OF False] obtain h t where "esc c = h # t" "\<not> is_ws h"
      by (cases "esc c") auto
    with False show ?thesis by (simp add: escape_def)
  qed
qed

lemma rstrip_escape:
  "rev (dropWhile is_ws (rev (escape s))) = escape (rev (dropWhile is_ws (rev s)))"
proof (induction s rule: rev_induct)
  case Nil
  then show ?case by (simp add: escape_def)
next
  case (snoc x xs)
  show ?case
  proof (cases "is_ws x")
    case True
    with snoc show ?thesis by (simp add: escape_def esc_ws)
  next
    case False
    from esc_ink[OF False] have "esc x \<noteq> []" "\<not> is_ws (last (esc x))" by auto
    then obtain h t where "rev (esc x) = h # t" "\<not> is_ws h"
      by (cases "rev (esc x)") (auto simp: last_rev[symmetric] hd_rev)
    with False show ?thesis by (simp add: escape_def)
  qed
qed

lemma trim_escape: "trim (escape s) = escape (trim s)"
  by (simp add: trim_def dropWhile_escape rstrip_escape)

lemma sanitizeText_escape: "s \<noteq> [] \<Longrightarrow> sanitizeText (JStr s) = escape (trim s)"
  by (simp add: sanitizeText_def sanitize_chain trim_escape)

lemma escape_Cons: "escape (c # cs) = esc c @ escape cs"
  by (simp add: escape_def)

lemma no_lt_in_esc: "cu CHR ''<'' \<notin> set (esc c)"
  by (simp add: esc_def ascii_def) (simp add: cu_def)

lemma no_lt_in_escape: "cu CHR ''<'' \<notin> set (escape s)"
  by (induction s) (simp_all add: escape_def no_lt_in_esc)

subsection \<open>The matcher on escaped text\<close>

text \<open>
  An escaped text matches none of the unsafe patterns unless the original does. The
  element patterns need a \<open><\<close>, which escaping removes. The other two patterns are
  built from classes that reject \<open>&\<close>, so a match that begins at an original character
  runs through unescaped characters only and is a match of the original; and no match
  begins inside an entity, as the first two characters of a match show.
\<close>

lemma hits_Seq: "ends (Seq a b) s \<noteq> [] \<longleftrightarrow> (\<exists>m\<in>set (ends a s). ends b m \<noteq> [])"
  by (auto simp: concat_eq_Nil_conv)

lemma ends_Class_iff:
  "x \<in> set (ends (Class p) (pv, cs)) \<longleftrightarrow> (\<exists>c t. cs = c # t \<and> p c \<and> x = (Some c, t))"
  by (cases cs) auto

lemma rest_Seq:
  "x \<in> snd ` set (ends (Seq a b) s) \<longleftrightarrow> (\<exists>m\<in>set (ends a s). x \<in> snd ` set (ends b m))"
  by auto

lemma iterate_Class:
  "length cs \<le> n \<Longrightarrow>
     snd ` set (iterate (ends (Class p)) n (pv, cs)) = {drop k cs |k. k \<le> length (takeWhile p cs)}"
proof (induction cs arbitrary: n pv)
  case Nil
  then show ?case by (cases n) auto
next
  case (Cons c cs)
  then obtain m where n: "n = Suc m" "length cs \<le> m" by (cases n) auto
  show ?case
  proof (cases "p c")
    case True
    have "{drop k (c # cs) |k. k \<le> length (takeWhile p (c # cs))} =
          insert (c # cs) {drop k cs |k. k \<le> length (takeWhile p cs)}"
    proof (intro set_eqI iffI)
      fix x assume "x \<in> {drop k (c # cs) |k. k \<le> length (takeWhile p (c # cs))}"
      then obtain k where k: "x = drop k (c # cs)" "k \<le> Suc (length (takeWhile p cs))"
        using True by auto
      then show "x \<in> insert (c # cs) {drop k cs |k. k \<le> length (takeWhile p cs)}"
        by (cases k) auto
    next
      fix x assume "x \<in> insert (c # cs) {drop k cs |k. k \<le> length (takeWhile p cs)}"
      then consider "x = c # cs" | k where "x = drop k cs" "k \<le> length (takeWhile p cs)"
        by auto
      then show "x \<in> {drop k (c # cs) |k. k \<le> length (takeWhile p (c # cs))}"
      proof cases
        case 1
        then show ?thesis by (auto intro: exI[of _ 0])
      next
        case 2
        with True show ?thesis by (auto intro!: exI[of _ "Suc k"])
      qed
    qed
    with True n Cons.IH[OF n(2), of "Some c"] show ?thesis by simp
  next
    case False
    with n show ?thesis by auto
  qed
qed

lemma rest_Star_Class:
  "snd ` set (ends (Star (Class p)) (pv, cs)) = {drop k cs |k. k \<le> length (takeWhile p cs)}"
  by (simp add: iterate_Class)

lemma takeWhile_escape:
  "\<not> p amp \<Longrightarrow> k \<le> length (takeWhile p (escape s)) \<Longrightarrow>
     drop k (escape s) = escape (drop k s) \<and> k \<le> length (takeWhile p s)"
proof (induction s arbitrary: k)
  case Nil
  then show ?case by (simp add: escape_def)
next
  case (Cons c cs)
  show ?case
  proof (cases k)
    case 0
    then show ?thesis by simp
  next
    case (Suc j)
    from esc_cases[of c] show ?thesis
    proof
      assume e: "esc c = [c]"
      with Cons.prems Suc have "p c" "j \<le> length (takeWhile p (escape cs))"
        by (auto simp: escape_Cons split: if_splits)
      with Cons.IH[OF Cons.prems(1), of j] e Suc show ?thesis
        by (simp add: escape_Cons)
    next
      assume "\<exists>t. esc c = amp # t"
      with Cons.prems Suc show ?thesis by (auto simp: escape_Cons)
    qed
  qed
qed

lemma transfers_Eps: "transfers Eps"
  by (auto simp: transfers_def)

lemma transfers_Class: "\<not> p amp \<Longrightarrow> transfers (Class p)"
  unfolding transfers_def
proof (intro allI impI)
  fix pv pv2 s x
  assume na: "\<not> p amp" and x: "x \<in> snd ` set (ends (Class p) (pv, escape s))"
  then obtain c t where ct: "escape s = c # t" "p c" "x = t"
    by (auto simp: ends_Class_iff)
  then obtain d ds where s: "s = d # ds" by (cases s) (auto simp: escape_def)
  from esc_cases[of d] ct na s have "esc d = [d]" by (auto simp: escape_Cons)
  with ct s have "c = d" "t = escape ds" by (simp_all add: escape_Cons)
  with ct s show "\<exists>s'. x = escape s' \<and> s' \<in> snd ` set (ends (Class p) (pv2, s))"
    by (intro exI[of _ ds]) (simp add: image_iff)
qed

lemma transfers_Seq:
  assumes "transfers a" and "transfers b"
  shows "transfers (Seq a b)"
  unfolding transfers_def
proof (intro allI impI)
  fix pv pv2 s x
  assume "x \<in> snd ` set (ends (Seq a b) (pv, escape s))"
  then obtain pm rm where m: "(pm, rm) \<in> set (ends a (pv, escape s))"
    and x: "x \<in> snd ` set (ends b (pm, rm))"
    by (auto simp: rest_Seq simp del: ends.simps)
  from m have "rm \<in> snd ` set (ends a (pv, escape s))" by force
  with assms(1) obtain s1 where s1: "rm = escape s1" "s1 \<in> snd ` set (ends a (pv2, s))"
    unfolding transfers_def by blast
  then obtain p1 where p1: "(p1, s1) \<in> set (ends a (pv2, s))" by auto
  from x s1 assms(2) obtain s2 where s2: "x = escape s2" "s2 \<in> snd ` set (ends b (p1, s1))"
    unfolding transfers_def by blast
  with p1 show "\<exists>s'. x = escape s' \<and> s' \<in> snd ` set (ends (Seq a b) (pv2, s))"
    by (intro exI[of _ s2]) (auto simp: rest_Seq simp del: ends.simps)
qed

lemma transfers_Star_Class: "\<not> p amp \<Longrightarrow> transfers (Star (Class p))"
  unfolding transfers_def
proof (intro allI impI)
  fix pv pv2 s x
  assume na: "\<not> p amp" and "x \<in> snd ` set (ends (Star (Class p)) (pv, escape s))"
  then obtain k where k: "x = drop k (escape s)" "k \<le> length (takeWhile p (escape s))"
    by (auto simp: rest_Star_Class simp del: ends.simps)
  from takeWhile_escape[OF na k(2)] k(1)
  show "\<exists>s'. x = escape s' \<and> s' \<in> snd ` set (ends (Star (Class p)) (pv2, s))"
    by (intro exI[of _ "drop k s"]) (auto simp: rest_Star_Class simp del: ends.simps)
qed

lemma transfers_hits:
  "transfers r \<Longrightarrow> ends r (pv, escape s) \<noteq> [] \<Longrightarrow> ends r (pv2, s) \<noteq> []"
proof -
  assume t: "transfers r" and h: "ends r (pv, escape s) \<noteq> []"
  then obtain m where "m \<in> set (ends r (pv, escape s))" by (cases "ends r (pv, escape s)") auto
  then have "snd m \<in> snd ` set (ends r (pv, escape s))" by simp
  with t obtain s' where "s' \<in> snd ` set (ends r (pv2, s))"
    unfolding transfers_def by blast
  then show ?thesis by auto
qed

lemma starts1_Class: "starts1 P (Seq (Class P) b)"
  by (auto simp: starts1_def hits_Seq ends_Class_iff simp del: ends.simps)

lemma member_hits: "m \<in> set (ends a s) \<Longrightarrow> ends a s \<noteq> []"
  by auto

lemma starts1_Seq: "starts1 P a \<Longrightarrow> starts1 P (Seq a b)"
  unfolding starts1_def hits_Seq by (blast dest: member_hits)

lemma starts2_Class: "starts2 P1 P2 (Seq (Class P1) (Seq (Class P2) b))"
  by (auto simp: starts2_def hits_Seq ends_Class_iff simp del: ends.simps)

lemma starts2_Seq: "starts2 P1 P2 a \<Longrightarrow> starts2 P1 P2 (Seq a b)"
  unfolding starts2_def hits_Seq by (blast dest: member_hits)

lemma starts1_D: "starts1 P r \<Longrightarrow> \<not> P c \<Longrightarrow> ends r (pv, c # cs) = []"
  unfolding starts1_def by fastforce

lemma starts1_Nil: "starts1 P r \<Longrightarrow> ends r (pv, []) = []"
  unfolding starts1_def by fastforce

lemma starts2_D1: "starts2 P1 P2 r \<Longrightarrow> \<not> P1 c \<Longrightarrow> ends r (pv, c # cs) = []"
  unfolding starts2_def by fastforce

lemma starts2_D2: "starts2 P1 P2 r \<Longrightarrow> \<not> P2 d \<Longrightarrow> ends r (pv, c # d # cs) = []"
  unfolding starts2_def by fastforce

lemma starts2_Nil: "starts2 P1 P2 r \<Longrightarrow> ends r (pv, []) = []"
  unfolding starts2_def by fastforce

lemma search_none:
  assumes "starts1 P r" and "\<forall>c\<in>set t. \<not> P c"
  shows "\<not> search r pv t"
  using assms(2)
proof (induction t arbitrary: pv)
  case Nil
  from starts1_Nil[OF assms(1)] show ?case by simp
next
  case (Cons c cs)
  then have "\<not> P c" by simp
  from starts1_D[OF assms(1) this] Cons show ?case by simp
qed

lemma search_skip:
  assumes "starts2 P1 P2 r"
  shows "no_start P1 P2 e \<Longrightarrow> e \<noteq> [] \<Longrightarrow>
           search r pv (e @ rest) = search r (Some (last e)) rest"
proof (induction e arbitrary: pv)
  case Nil
  then show ?case by simp
next
  case (Cons x e)
  show ?case
  proof (cases e)
    case Nil
    with Cons.prems have "\<not> P1 x" by simp
    from starts2_D1[OF assms this] Nil show ?thesis by simp
  next
    case (Cons y zs)
    with Cons.prems have c: "\<not> P1 x \<or> \<not> P2 y" and n: "no_start P1 P2 e" by simp_all
    from c have "ends r (pv, x # y # zs @ rest) = []"
      using starts2_D1[OF assms] starts2_D2[OF assms] by blast
    with Cons.IH[OF n, of "Some x"] Cons show ?thesis by simp
  qed
qed

lemma search_escape:
  assumes s2: "starts2 P1 P2 r" and tr: "transfers r"
      and ent: "\<And>c. esc c \<noteq> [c] \<Longrightarrow> no_start P1 P2 (esc c)"
  shows "search r pv (escape s) \<Longrightarrow> search r pv2 s"
proof (induction s arbitrary: pv pv2)
  case Nil
  with starts2_Nil[OF s2] show ?case by (simp add: escape_def)
next
  case (Cons c cs)
  show ?case
  proof (cases "esc c = [c]")
    case True
    with Cons.prems consider "ends r (pv, escape (c # cs)) \<noteq> []" | "search r (Some c) (escape cs)"
      by (auto simp: escape_Cons)
    then show ?thesis
    proof cases
      case 1
      from transfers_hits[OF tr this, of pv2] show ?thesis by simp
    next
      case 2
      from Cons.IH[OF this, of "Some c"] show ?thesis by simp
    qed
  next
    case False
    from esc_cases[of c] False have ne: "esc c \<noteq> []" by auto
    from Cons.prems search_skip[OF s2 ent[OF False] ne, of pv "escape cs"]
    have "search r (Some (last (esc c))) (escape cs)" by (simp add: escape_Cons)
    from Cons.IH[OF this, of "Some c"] show ?thesis by simp
  qed
qed

lemma chr_i_lt: "upper c = upper (cu CHR ''<'') \<longleftrightarrow> c = cu CHR ''<''"
proof
  assume u: "upper c = upper (cu CHR ''<'')"
  show "c = cu CHR ''<''"
  proof (cases "0x61 \<le> c \<and> c \<le> 0x7A")
    case True
    then have "c - 0x20 \<noteq> 0x3C" by unat_arith
    with u True show ?thesis by (simp add: upper_def cu_def)
  next
    case False
    with u show ?thesis by (simp add: upper_def cu_def)
  qed
qed simp

lemma element_starts: "starts1 (\<lambda>c. c = cu CHR ''<'') (element_re (CHR ''<'' # w) closing)"
  by (simp add: element_re_def seqs_def lit_i_def chr_i_def chr_i_lt)
     (intro starts1_Seq starts1_Class)

lemma element_escape: "\<not> test (element_re (CHR ''<'' # w) closing) (escape u)"
  unfolding test_def
  by (rule search_none[OF element_starts]) (use no_lt_in_escape[of u] in auto)

lemma javascript_transfers: "transfers (lit_i ''javascript:'')"
  by (simp add: lit_i_def seqs_def chr_i_def)
     (intro transfers_Seq transfers_Class transfers_Eps;
      simp add: amp_def upper_def cu_def)

lemma javascript_starts:
  "starts2 (\<lambda>c. upper c = upper (cu CHR ''j'')) (\<lambda>c. upper c = upper (cu CHR ''a''))
     (lit_i ''javascript:'')"
  by (simp add: lit_i_def seqs_def chr_i_def) (rule starts2_Class)

lemma javascript_entities:
  "esc c \<noteq> [c] \<Longrightarrow>
     no_start (\<lambda>c. upper c = upper (cu CHR ''j'')) (\<lambda>c. upper c = upper (cu CHR ''a'')) (esc c)"
  by (simp add: esc_def ascii_def split: if_splits) (simp_all add: upper_def cu_def)

lemma javascript_escape:
  "test (lit_i ''javascript:'') (escape u) \<Longrightarrow> test (lit_i ''javascript:'') u"
  unfolding test_def
  by (rule search_escape[OF javascript_starts javascript_transfers javascript_entities])

lemma handler_transfers:
  "transfers (seqs [lit_i ''on'', Plus (Class is_word), Star (Class is_ws), chr_i CHR ''=''])"
  by (simp add: lit_i_def seqs_def chr_i_def Plus_def)
     (intro transfers_Seq transfers_Class transfers_Eps transfers_Star_Class;
      simp add: amp_def upper_def cu_def is_word_def is_ws_def)

lemma handler_starts:
  "starts2 (\<lambda>c. upper c = upper (cu CHR ''o'')) (\<lambda>c. upper c = upper (cu CHR ''n''))
     (seqs [lit_i ''on'', Plus (Class is_word), Star (Class is_ws), chr_i CHR ''=''])"
  by (simp add: lit_i_def seqs_def chr_i_def Plus_def)
     (intro starts2_Seq starts2_Class)

lemma handler_entities:
  "esc c \<noteq> [c] \<Longrightarrow>
     no_start (\<lambda>c. upper c = upper (cu CHR ''o'')) (\<lambda>c. upper c = upper (cu CHR ''n'')) (esc c)"
  by (simp add: esc_def ascii_def split: if_splits) (simp_all add: upper_def cu_def)

lemma handler_escape:
  "test (seqs [lit_i ''on'', Plus (Class is_word), Star (Class is_ws), chr_i CHR ''='']) (escape u)
     \<Longrightarrow> test (seqs [lit_i ''on'', Plus (Class is_word), Star (Class is_ws), chr_i CHR ''='']) u"
  unfolding test_def
  by (rule search_escape[OF handler_starts handler_transfers handler_entities])

lemma unsafe_escape:
  "containsUnsafeCharacters (escape u) \<Longrightarrow> containsUnsafeCharacters u"
  using element_escape[of "''script''" "''</script>''" u]
        element_escape[of "''iframe''" "''</iframe>''" u]
        javascript_escape[of u] handler_escape[of u]
  by (auto simp: containsUnsafeCharacters_def unsafePatterns_def)

lemma sanitized_safe:
  assumes "isValid (validateTaskText v)"
  shows "\<not> containsUnsafeCharacters (trim (trim (sanitizeText v)))"
proof -
  from assms obtain s where v: "v = JStr s" and ne: "trim s \<noteq> []"
    and safe: "\<not> containsUnsafeCharacters (trim s)"
    by (cases v)
       (auto simp: validateTaskText_def Let_def ValidationResult_error_def split: if_splits)
  from ne have "s \<noteq> []" by (auto simp: trim_def)
  then have "sanitizeText v = escape (trim s)" using v by (simp add: sanitizeText_escape)
  moreover have "trim (escape (trim s)) = escape (trim s)"
    by (simp add: trim_escape trim_trim)
  ultimately show ?thesis using safe unsafe_escape[of "trim s"] by auto
qed

subsection \<open>StorageManager\<close>

text \<open>
  \<open>saveTodos\<close> fails exactly when localStorage counts as available and the write raises
  a QuotaExceededError. \<open>loadTodos\<close> always succeeds, and returns well-formed tasks only.
\<close>

lemma saveTodos_success_iff:
  "success (fst (saveTodos P ls sm xs)) \<longleftrightarrow>
     \<not> (isLocalStorageAvailable sm \<and>
        (\<exists>e. setItem_raises ls = Some e \<and> exn_name e = ascii ''QuotaExceededError''))"
  by (auto simp: saveTodos_def setItem_def Let_def StorageResult_success_def
      StorageResult_error_def split: option.splits)

lemma loadTodos_success: "success (loadTodos P ls sm)"
  by (simp add: loadTodos_def StorageResult_success_def split: sum.splits jsval.splits)

lemma restore_concat:
  "restore P records = concat (map (\<lambda>j. case fromJSON P j of Inr t \<Rightarrow> [t] | Inl e \<Rightarrow> []) records)"
  unfolding restore_def by (induction records) (auto split: sum.splits)

lemma restore_acceptable:
  "restore P records = map (task_of P) (filter (acceptable P) records)"
proof (induction records)
  case Nil
  show ?case by (simp add: restore_def)
next
  case (Cons j js)
  show ?case
  proof (cases "acceptable P j")
    case True
    from fromJSON_acceptable[OF True] Cons show ?thesis
      by (simp add: restore_concat True)
  next
    case False
    from fromJSON_unacceptable[OF False] obtain e where "fromJSON P j = Inl e" by blast
    with Cons show ?thesis by (simp add: restore_concat False)
  qed
qed

lemma loadTodos_array:
  "readDataString ls sm = Inr (Some (JsonText (JArr records))) \<Longrightarrow>
     loadTodos P ls sm = StorageResult_success (Some (restore P records))"
  by (simp add: loadTodos_def)

lemma loadTodos_other:
  "(\<forall>records. readDataString ls sm \<noteq> Inr (Some (JsonText (JArr records)))) \<Longrightarrow>
     loadTodos P ls sm = StorageResult_success (Some [])"
  by (auto simp: loadTodos_def split: sum.splits jsval.splits option.splits dataString.splits
      elim!: JSON_parse.elims)

lemma restore_toJSON:
  assumes "\<forall>t\<in>set tasks. wellFormed t"
      and "\<forall>t\<in>set tasks. Date_new P (JStr (toISOString P (createdAt t))) \<noteq> None"
  shows "restore P (map record_json (map (toJSON P) tasks)) =
           map (\<lambda>t. t\<lparr>createdAt := the (Date_new P (JStr (toISOString P (createdAt t))))\<rparr>) tasks"
  using assms
proof (induction tasks)
  case Nil
  then show ?case by (simp add: restore_def)
next
  case (Cons t ts)
  from Cons.prems obtain d where d: "Date_new P (JStr (toISOString P (createdAt t))) = Some d"
    by auto
  from Cons.prems have "wellFormed t" by simp
  from fromJSON_toJSON[OF this d] Cons show ?case
    by (simp add: restore_concat d)
qed

lemma restore_wellFormed: "t \<in> set (restore P js) \<Longrightarrow> wellFormed t"
  by (auto simp: restore_concat split: sum.splits dest: fromJSON_wellFormed[OF sym])

lemma loadTodos_wellFormed:
  "data (loadTodos P ls sm) = Some ts \<Longrightarrow> t \<in> set ts \<Longrightarrow> wellFormed t"
  by (auto simp: loadTodos_def StorageResult_success_def restore_wellFormed
      split: sum.splits if_splits jsval.splits)

subsection \<open>TodoApp\<close>

lemma counts: "getTodoCount app = getCompletedCount app + getActiveCount app"
  unfolding getTodoCount_def getCompletedCount_def getActiveCount_def
  using sum_length_filter_compl[of "\<lambda>t. completed t" "todos app"] by simp

lemma toggleTodo_success:
  assumes wf: "\<forall>t\<in>set (todos app). wellFormed t"
      and idx: "findIndex (\<lambda>t. todo_id t = x) (todos app) = Some i"
      and save: "\<And>xs. success (fst (saveTodos P ls (storageManager app) xs))"
      and run: "toggleTodo P ls app (JStr x) = (r, app', ls')"
  shows "result_success r \<and>
         todos app' = (todos app)[i := (todos app ! i)\<lparr>completed := \<not> completed (todos app ! i)\<rparr>] \<and>
         result_todo r = Some ((todos app ! i)\<lparr>completed := \<not> completed (todos app ! i)\<rparr>)"
proof -
  from findIndex_Some[OF idx] have i: "i < length (todos app)" "todo_id (todos app ! i) = x"
    by auto
  with wf have w: "wellFormed (todos app ! i)" by simp
  from wellFormed_id_nonempty[OF w] i have x: "x \<noteq> []" by simp
  let ?new = "(todos app ! i)\<lparr>completed := \<not> completed (todos app ! i)\<rparr>"
  obtain s sm' l' where sv: "saveTodos P ls (storageManager app) ((todos app)[i := ?new]) = (s, sm', l')"
    by (cases "saveTodos P ls (storageManager app) ((todos app)[i := ?new])") auto
  with save[of "(todos app)[i := ?new]"] have ok: "success s" by simp
  from run x idx toggle_wellFormed[OF w] sv ok show ?thesis
    by (auto simp: toggleTodo_def Let_def)
qed

lemma addTodo_valid:
  assumes valid: "isValid (validateTaskText (JStr t))"
      and fits: "length (sanitizeText (JStr t)) \<le> 200"
      and save: "\<And>xs. success (fst (saveTodos P ls (storageManager app) xs))"
  shows "result_success (fst (addTodo P ls inp app (JStr t))) \<and>
         todos (fst (snd (addTodo P ls inp app (JStr t)))) =
           todos app @ [\<lparr>todo_id = generateId (clock_id inp) (random_suffix inp),
                          todo_text = sanitizeText (JStr t), completed = False,
                          createdAt = clock_created inp\<rparr>]"
proof -
  let ?new = "\<lparr>todo_id = generateId (clock_id inp) (random_suffix inp),
                todo_text = sanitizeText (JStr t), completed = False,
                createdAt = clock_created inp\<rparr>"
  from valid have "trim t \<noteq> []"
    by (auto simp: validateTaskText_def Let_def ValidationResult_error_def split: if_splits)
  then have ne: "sanitizeText (JStr t) \<noteq> []" by (rule sanitizeText_nonempty)
  have new: "Todo_new (JStr (generateId (clock_id inp) (random_suffix inp)))
      (JStr (trim (sanitizeText (JStr t)))) JUndefined (Some (clock_created inp)) = Inr ?new"
    using ne fits generateId_valid[of "clock_id inp" "random_suffix inp"]
    by (simp add: Todo_new_def sanitizeText_trimmed del: validateId.simps)
  obtain s sm' l' where sv: "saveTodos P ls (storageManager app) (todos app @ [?new]) = (s, sm', l')"
    by (cases "saveTodos P ls (storageManager app) (todos app @ [?new])") auto
  with save[of "todos app @ [?new]"] have ok: "success s" by simp
  from valid new sv ok show ?thesis
    by (simp add: addTodo_def Let_def)
qed

lemma addTodo_success:
  assumes "addTodo P ls inp app v = (r, app', ls')" and "result_success r"
  shows "\<exists>new. result_todo r = Some new \<and> todos app' = todos app @ [new] \<and>
           \<not> containsUnsafeCharacters (trim (todo_text new)) \<and>
           1 \<le> length (trim (todo_text new)) \<and> length (trim (todo_text new)) \<le> 200"
proof -
  from assms obtain new where valid: "isValid (validateTaskText v)"
    and new: "Todo_new (JStr (generateId (clock_id inp) (random_suffix inp)))
          (JStr (trim (sanitizeText v))) JUndefined (Some (clock_created inp)) = Inr new"
    and r: "result_todo r = Some new" and t: "todos app' = todos app @ [new]"
    by (auto simp: addTodo_def Let_def failure_def split: if_splits sum.splits prod.splits)
  from added_text[OF new] sanitized_safe[OF valid]
  have "\<not> containsUnsafeCharacters (trim (todo_text new))" by simp
  moreover from Todo_new_wellFormed[OF new]
  have "1 \<le> length (trim (todo_text new)) \<and> length (trim (todo_text new)) \<le> 200"
    by (simp add: wellFormed_iff Suc_le_eq)
  ultimately show ?thesis using r t by blast
qed

lemma initialize_wellFormed:
  "initialize P ls app = (b, app') \<Longrightarrow> t \<in> set (todos app') \<Longrightarrow> wellFormed t"
  by (auto simp: initialize_def initialize_with_def Let_def showStorageWarning_def
      split: if_splits option.splits dest: loadTodos_wellFormed)

lemma addTodo_todos:
  "addTodo P ls inp app v = (r, app', ls') \<Longrightarrow>
     todos app' = todos app \<or>
     (\<exists>new. isValid (validateTaskText v) \<and>
        Todo_new (JStr (generateId (clock_id inp) (random_suffix inp)))
          (JStr (trim (sanitizeText v))) JUndefined (Some (clock_created inp)) = Inr new \<and>
        todos app' = todos app @ [new])"
  by (auto simp: addTodo_def Let_def split: if_splits sum.splits prod.splits)

lemma toggleTodo_todos:
  "toggleTodo P ls app v = (r, app', ls') \<Longrightarrow>
     todos app' = todos app \<or>
     (\<exists>i new. i < length (todos app) \<and> toggle (todos app ! i) = Inr new \<and>
        todos app' = (todos app)[i := new])"
  by (auto simp: toggleTodo_def Let_def split: if_splits sum.splits prod.splits option.splits
      dest!: findIndex_Some)

lemma deleteTodo_todos:
  "deleteTodo P ls app v = (r, app', ls') \<Longrightarrow> set (todos app') \<subseteq> set (todos app)"
  by (auto simp: deleteTodo_def Let_def splice_in_out
      split: if_splits sum.splits prod.splits option.splits
      dest!: findIndex_Some dest: set_splice_out)

lemma clearAllTodos_todos:
  "clearAllTodos ls app = (r, app', ls') \<Longrightarrow> set (todos app') \<subseteq> set (todos app)"
  by (auto simp: clearAllTodos_def Let_def split: if_splits prod.splits)

lemma attemptStorageRecovery_todos:
  "attemptStorageRecovery P ls app = (b, app', ls') \<Longrightarrow> todos app' = todos app"
  by (auto simp: attemptStorageRecovery_def Let_def showStorageWarning_def
      split: if_splits prod.splits)

lemma toggle_twice_wellFormed:
  assumes wf: "\<forall>t\<in>set (todos app). wellFormed t"
      and present: "x \<in> todo_id ` set (todos app)"
      and save1: "\<And>xs. success (fst (saveTodos P ls (storageManager app) xs))"
      and first: "toggleTodo P ls app (JStr x) = (r1, app1, ls1)"
      and save2: "\<And>xs. success (fst (saveTodos P ls2 (storageManager app1) xs))"
      and second: "toggleTodo P ls2 app1 (JStr x) = (r2, app2, ls3)"
  shows "\<exists>i<length (todos app).
           todo_id (todos app ! i) = x \<and>
           result_success r1 \<and>
           todos app1 = (todos app)[i := (todos app ! i)\<lparr>completed := \<not> completed (todos app ! i)\<rparr>] \<and>
           result_todo r1 = Some (todos app1 ! i) \<and>
           todo_id (todos app1 ! i) = todo_id (todos app ! i) \<and>
           todo_text (todos app1 ! i) = todo_text (todos app ! i) \<and>
           createdAt (todos app1 ! i) = createdAt (todos app ! i) \<and>
           completed (todos app1 ! i) = (\<not> completed (todos app ! i)) \<and>
           result_success r2 \<and>
           todos app2 = todos app"
proof -
  from findIndex_present[OF present] obtain i
    where idx: "findIndex (\<lambda>t. todo_id t = x) (todos app) = Some i" by blast
  from findIndex_Some[OF idx] have i: "i < length (todos app)" "todo_id (todos app ! i) = x"
    by auto
  let ?t = "todos app ! i"
  from toggleTodo_success[OF wf idx save1 first]
  have one: "result_success r1" "todos app1 = (todos app)[i := ?t\<lparr>completed := \<not> completed ?t\<rparr>]"
    "result_todo r1 = Some (?t\<lparr>completed := \<not> completed ?t\<rparr>)"
    by auto
  have wf1: "\<forall>t\<in>set (todos app1). wellFormed t"
  proof
    fix t assume "t \<in> set (todos app1)"
    with one(2) have "t \<in> insert (?t\<lparr>completed := \<not> completed ?t\<rparr>) (set (todos app))"
      using set_update_subset_insert by fastforce
    with wf i(1) show "wellFormed t"
      by (auto simp: wellFormed_toggled)
  qed
  have idx1: "findIndex (\<lambda>t. todo_id t = x) (todos app1) = Some i"
    using findIndex_update[of i "todos app" "\<lambda>t. todo_id t = x" "?t\<lparr>completed := \<not> completed ?t\<rparr>"]
      i idx one(2) by simp
  from toggleTodo_success[OF wf1 idx1 save2 second] one(2) i(1)
  have two: "result_success r2" "todos app2 = todos app"
    by (simp_all add: list_update_same_conv)
  from i one two show ?thesis
    by (intro exI[of _ i]) simp
qed

subsection \<open>Reachable states\<close>

text \<open>
  Every task of a reachable registry is well formed, so the hypothesis of well-formed
  tasks used below holds in every state the program can be in.
\<close>

lemma reachable_wellFormed:
  "reachable P L app \<Longrightarrow> \<forall>t\<in>set (todos app). wellFormed t"
proof (induction rule: reachable.induct)
  case (created ls)
  then show ?case by (simp add: TodoApp_new_def)
next
  case (initialized L app ls b app')
  then show ?case by (auto dest: initialize_wellFormed)
next
  case (added L app ls inp v r app' ls')
  from addTodo_todos[OF added.hyps(2)] added.IH show ?case
    by (auto dest: Todo_new_wellFormed)
next
  case (toggled L app ls v r app' ls')
  from toggleTodo_todos[OF toggled.hyps(2)] toggled.IH show ?case
    by (auto simp: toggle_def dest: Todo_new_wellFormed dest!: set_update_subset_insert[THEN subsetD])
next
  case (deleted L app ls v r app' ls')
  from deleteTodo_todos[OF deleted.hyps(2)] deleted.IH show ?case by auto
next
  case (cleared L app ls r app' ls')
  from clearAllTodos_todos[OF cleared.hyps(2)] cleared.IH show ?case by auto
next
  case (recovered L app ls b app' ls')
  from attemptStorageRecovery_todos[OF recovered.hyps(2)] recovered.IH show ?case by simp
qed

lemma reachable_safe:
  assumes "reachable P L app"
      and "\<forall>t\<in>set L. \<not> containsUnsafeCharacters (trim (todo_text t))"
  shows "\<forall>t\<in>set (todos app). \<not> containsUnsafeCharacters (trim (todo_text t))"
  using assms
proof (induction rule: reachable.induct)
  case (created ls)
  then show ?case by (simp add: TodoApp_new_def)
next
  case (initialized L app ls b app')
  then show ?case by simp
next
  case (added L app ls inp v r app' ls')
  from addTodo_todos[OF added.hyps(2)] added.IH[OF added.prems] show ?case
    using sanitized_safe[of v] by (auto dest!: added_text)
next
  case (toggled L app ls v r app' ls')
  from toggleTodo_todos[OF toggled.hyps(2)] toggled.IH[OF toggled.prems] show ?case
  proof (elim disjE exE conjE)
    fix i new
    assume i: "i < length (todos app)" and t: "toggle (todos app ! i) = Inr new"
      and u: "todos app' = (todos app)[i := new]"
    from toggle_text[OF t] toggled.IH[OF toggled.prems] i
    have "\<not> containsUnsafeCharacters (trim (todo_text new))" by simp
    with u toggled.IH[OF toggled.prems] show ?thesis
      by (auto dest!: set_update_subset_insert[THEN subsetD])
  qed simp
next
  case (deleted L app ls v r app' ls')
  from deleteTodo_todos[OF deleted.hyps(2)] deleted.IH[OF deleted.prems] show ?case by auto
next
  case (cleared L app ls r app' ls')
  from clearAllTodos_todos[OF cleared.hyps(2)] cleared.IH[OF cleared.prems] show ?case by auto
next
  case (recovered L app ls b app' ls')
  from attemptStorageRecovery_todos[OF recovered.hyps(2)] recovered.IH[OF recovered.prems]
  show ?case by simp
qed

lemma reachable_unsafe_loaded:
  assumes "reachable P L app"
  shows "\<forall>t\<in>set (todos app). containsUnsafeCharacters (trim (todo_text t)) \<longrightarrow>
           (\<exists>l\<in>set L. todo_id l = todo_id t \<and> todo_text l = todo_text t \<and>
              createdAt l = createdAt t)"
  using assms
proof (induction rule: reachable.induct)
  case (created ls)
  then show ?case by (simp add: TodoApp_new_def)
next
  case (initialized L app ls b app')
  then show ?case by blast
next
  case (added L app ls inp v r app' ls')
  from addTodo_todos[OF added.hyps(2)] added.IH show ?case
    using sanitized_safe[of v] by (auto dest!: added_text)
next
  case (toggled L app ls v r app' ls')
  from toggleTodo_todos[OF toggled.hyps(2)] show ?case
  proof (elim disjE exE conjE)
    assume "todos app' = todos app"
    with toggled.IH show ?thesis by simp
  next
    fix i new
    assume i: "i < length (todos app)" and t: "toggle (todos app ! i) = Inr new"
      and u: "todos app' = (todos app)[i := new]"
    show ?thesis
    proof (intro ballI impI)
      fix x assume x: "x \<in> set (todos app')"
        and ux: "containsUnsafeCharacters (trim (todo_text x))"
      from x u have "x = new \<or> x \<in> set (todos app)"
        using set_update_subset_insert[of "todos app" i new] by auto
      then show "\<exists>l\<in>set L. todo_id l = todo_id x \<and> todo_text l = todo_text x \<and>
              createdAt l = createdAt x"
      proof
        assume "x = new"
        with toggle_fields[OF t] ux i toggled.IH show ?thesis
          by (metis nth_mem)
      next
        assume "x \<in> set (todos app)"
        with ux toggled.IH show ?thesis by blast
      qed
    qed
  qed
next
  case (deleted L app ls v r app' ls')
  from deleteTodo_todos[OF deleted.hyps(2)] deleted.IH show ?case by blast
next
  case (cleared L app ls r app' ls')
  from clearAllTodos_todos[OF cleared.hyps(2)] cleared.IH show ?case by blast
next
  case (recovered L app ls b app' ls')
  from attemptStorageRecovery_todos[OF recovered.hyps(2)] recovered.IH show ?case by simp
qed

subsection \<open>The example values\<close>

lemma forced_example:
  "\<not> success (fst (saveTodos example_host full_storage (storageManager example_app) xs))"
  by (simp add: saveTodos_success_iff full_storage_def working_storage_def example_app_def
      quota_error_def)

lemma rollback_example_errors:
  "result_error (fst (addTodo example_host full_storage example_inputs example_app
      (JStr (ascii ''swim'')))) = Some (SaveFailed (Some StorageQuota))"
  "result_error (fst (toggleTodo example_host full_storage example_app (JStr (ascii ''1''))))
     = Some (SaveFailed (Some StorageQuota))"
  "result_error (fst (deleteTodo example_host full_storage example_app (JStr (ascii ''2''))))
     = Some (SaveFailed (Some StorageQuota))"
  by code_simp+

lemma wellFormed_examples: "wellFormed task1" "wellFormed task2"
  by (simp_all add: wellFormed_def task1_def task2_def) code_simp+

lemma ampersands_valid: "isValid (validateTaskText (JStr ampersands))"
  by code_simp

lemma ampersands_facts:
  "length (trim ampersands) = 41" "\<not> containsUnsafeCharacters (trim ampersands)"
  "length (sanitizeText (JStr ampersands)) = 205"
  by code_simp+

lemma loaded_app_todos: "todos loaded_app = [task1]"
  unfolding loaded_app_def by code_simp

lemma loaded_app_reachable: "reachable example_host [task1] loaded_app"
proof -
  have "initialize example_host mixed_storage (TodoApp_new mixed_storage)
      = (fst (initialize example_host mixed_storage (TodoApp_new mixed_storage)), loaded_app)"
    by (simp add: loaded_app_def)
  from reachable.initialized[OF reachable.created this] show ?thesis
    by (simp add: loaded_app_todos)
qed

lemma loaded_app_manager: "storageManager loaded_app = available_manager"
  unfolding loaded_app_def by code_simp

lemma toggle_loaded_first:
  "toggleTodo example_host working_storage loaded_app (JStr (ascii ''1'')) =
     (\<lparr>result_success = True, result_todo = Some (task1\<lparr>completed := True\<rparr>),
       result_deletedTodo = None, result_error = None\<rparr>,
      toggled_loaded_app,
      working_storage\<lparr>item := Some (JSON_stringify
         (map (toJSON example_host) [task1\<lparr>completed := True\<rparr>]))\<rparr>)"
  unfolding toggled_loaded_app_def loaded_app_def by code_simp

lemma toggle_loaded_second:
  "toggleTodo example_host working_storage toggled_loaded_app (JStr (ascii ''1'')) =
     (\<lparr>result_success = True, result_todo = Some task1,
       result_deletedTodo = None, result_error = None\<rparr>,
      loaded_app,
      working_storage\<lparr>item := Some (JSON_stringify (map (toJSON example_host) [task1]))\<rparr>)"
  unfolding toggled_loaded_app_def loaded_app_def by code_simp

lemma mixed_records:
  "acceptable example_host (record_json (toJSON example_host task1))"
  "\<not> acceptable example_host (JObj [(ascii ''id'', JNum 5)])"
  "task_of example_host (record_json (toJSON example_host task1)) = task1"
  by (simp_all add: acceptable_def task_of_def record_json_def toJSON_def task1_def
      example_host_def keys_distinct) code_simp+

lemma script_app_todos: "todos script_app = [script_task]"
  unfolding script_app_def script_task_def by code_simp

lemma script_app_manager: "storageManager script_app = available_manager"
  unfolding script_app_def by code_simp

lemma script_app_reachable: "reachable example_host [script_task] script_app"
proof -
  have "initialize example_host script_storage (TodoApp_new script_storage)
      = (fst (initialize example_host script_storage (TodoApp_new script_storage)), script_app)"
    by (simp add: script_app_def)
  from reachable.initialized[OF reachable.created this] show ?thesis
    by (simp add: script_app_todos)
qed

section \<open>The repository's tests and the specification's scenario\<close>

text \<open>
  The model run on cases of the repository's tests (validation.test.js and
  storage.test.js) and on the scenario of the specification: two tasks are added, the
  first is toggled, the second deleted, and the stored sequence is read back.
\<close>

lemma test_sanitize_tags:
  "sanitizeText (JStr (ascii ''<script>alert('' @ [cu (CHR 0x22)] @ ascii ''xss'' @ [cu (CHR 0x22)] @ ascii '')</script>''))
   = ascii ''&lt;script&gt;alert(&quot;xss&quot;)&lt;/script&gt;''"
  by code_simp

lemma test_sanitize_special:
  "sanitizeText (JStr (ascii ''& < > '' @ [cu (CHR 0x22)] @ ascii '' '' @ [cu (CHR 0x27)]))
   = ascii ''&amp; &lt; &gt; &quot; &#x27;''"
  by code_simp

lemma test_validate_dangerous:
  "validateTaskText (JStr (ascii ''<script>alert('' @ [cu (CHR 0x22)] @ ascii ''xss'' @ [cu (CHR 0x22)] @ ascii '')</script>''))
   = ValidationResult_error InputUnsafe"
  by code_simp

lemma test_validate_long:
  "validateTaskText (JStr (replicate 201 (cu CHR ''a''))) = ValidationResult_error InputOver200"
  by code_simp

lemma test_validate_limit:
  "validateTaskText (JStr (replicate 200 (cu CHR ''a''))) = ValidationResult_success"
  by code_simp

lemma test_validate_blank:
  "validateTaskText (JStr (ascii ''   '')) = ValidationResult_error TextEmpty"
  "validateTaskText (JStr []) = ValidationResult_error TextEmpty"
  "validateTaskText JNull = ValidationResult_error InputNotEntered"
  "validateTaskText JUndefined = ValidationResult_error InputNotEntered"
  "validateTaskText (JNum 123) = ValidationResult_error InputNotString"
  by code_simp+

lemma test_storage_invalid_records_skipped:
  "data (loadTodos example_host
      (working_storage\<lparr>item := Some (JsonText (JArr
         [JObj [(ascii ''id'', JStr (ascii ''1'')), (ascii ''text'', JStr (ascii ''ok'')),
                (ascii ''completed'', JBool False), (ascii ''createdAt'', JStr iso_epoch)],
          JObj [(ascii ''id'', JStr []), (ascii ''text'', JStr (ascii ''bad id'')),
                (ascii ''completed'', JBool False), (ascii ''createdAt'', JStr iso_epoch)],
          JObj [(ascii ''id'', JStr (ascii ''3'')), (ascii ''text'', JStr []),
                (ascii ''completed'', JBool False), (ascii ''createdAt'', JStr iso_epoch)],
          JObj [(ascii ''id'', JStr (ascii ''4'')), (ascii ''text'', JStr (ascii ''no flag'')),
                (ascii ''createdAt'', JStr iso_epoch)],
          JObj [(ascii ''id'', JStr (ascii ''5'')), (ascii ''text'', JStr (ascii ''bad date'')),
                (ascii ''completed'', JBool False), (ascii ''createdAt'', JStr (ascii ''never''))],
          JNull]))\<rparr>)
      available_manager)
   = Some [\<lparr>todo_id = ascii ''1'', todo_text = ascii ''ok'', completed = False, createdAt = 0\<rparr>,
           \<lparr>todo_id = ascii ''4'', todo_text = ascii ''no flag'', completed = False, createdAt = 0\<rparr>]"
  by code_simp

lemma scenario:
  "(let app0 = snd (initialize example_host working_storage (TodoApp_new working_storage));
        (r1, app1, ls1) = addTodo example_host working_storage
           \<lparr>clock_id = 1, random_suffix = ascii ''a'', clock_created = 0\<rparr> app0 (JStr shopping);
        (r2, app2, ls2) = addTodo example_host ls1
           \<lparr>clock_id = 2, random_suffix = ascii ''b'', clock_created = 0\<rparr> app1 (JStr mail);
        (r3, app3, ls3) = toggleTodo example_host ls2 app2 (JStr (ascii ''todo_1_a''));
        (r4, app4, ls4) = deleteTodo example_host ls3 app3 (JStr (ascii ''todo_2_b''))
    in getTodoCount app1 = 1 \<and> getTodoCount app2 = 2 \<and>
       map completed (todos app3) = [True, False] \<and> getTodoCount app3 = 2 \<and>
       getTodoCount app4 = 1 \<and> map todo_text (todos app4) = [shopping] \<and>
       map completed (todos app4) = [True] \<and>
       data (loadTodos example_host ls4 (storageManager app4)) = Some (todos app4))"
  by code_simp

section \<open>Rollback when the save fails\<close>

text \<open>
  Claim C1. Whatever the state of the registry, when \<open>saveTodos\<close> is forced to fail
  (it reports failure on every sequence it is given), each of \<open>addTodo\<close>,
  \<open>toggleTodo\<close> and \<open>deleteTodo\<close> returns a result with \<open>success: false\<close> and leaves
  the sequence seen through \<open>getAllTodos\<close> as it was before the call: same tasks, same
  order.
\<close>

theorem rollback:
  assumes forced: "\<And>xs. \<not> success (fst (saveTodos P ls (storageManager app) xs))"
  shows "\<not> result_success (fst (addTodo P ls inp app textv)) \<and>
         getAllTodos (fst (snd (addTodo P ls inp app textv))) = getAllTodos app \<and>
         \<not> result_success (fst (toggleTodo P ls app idv)) \<and>
         getAllTodos (fst (snd (toggleTodo P ls app idv))) = getAllTodos app \<and>
         \<not> result_success (fst (deleteTodo P ls app idv)) \<and>
         getAllTodos (fst (snd (deleteTodo P ls app idv))) = getAllTodos app"
proof -
  have forced': "\<not> success r" if "saveTodos P ls (storageManager app) xs = (r, sm', ls')"
    for xs r sm' ls'
    using forced[of xs] that by simp
  have add: "\<not> result_success (fst (addTodo P ls inp app textv)) \<and>
         getAllTodos (fst (snd (addTodo P ls inp app textv))) = getAllTodos app"
    using forced'
    by (auto simp: addTodo_def Let_def failure_def getAllTodos_def split: sum.splits prod.splits)
  have tog: "\<not> result_success (fst (toggleTodo P ls app idv)) \<and>
         getAllTodos (fst (snd (toggleTodo P ls app idv))) = getAllTodos app"
    using forced'
    by (auto simp: toggleTodo_def Let_def failure_def getAllTodos_def
        split: sum.splits prod.splits option.splits)
  have del: "\<not> result_success (fst (deleteTodo P ls app idv)) \<and>
         getAllTodos (fst (snd (deleteTodo P ls app idv))) = getAllTodos app"
    using forced'
    by (auto simp: deleteTodo_def Let_def failure_def getAllTodos_def splice_in_out
        dest!: findIndex_Some split: sum.splits prod.splits option.splits)
  from add tog del show ?thesis by blast
qed

text \<open>
  With a full quota: a valid text, the id of the first task and the id of the second
  all reach the save, fail there, and leave the two tasks in place.
\<close>

theorem rollback_witness:
  "(\<forall>xs. \<not> success (fst (saveTodos example_host full_storage (storageManager example_app) xs))) \<and>
   result_error (fst (addTodo example_host full_storage example_inputs example_app
      (JStr (ascii ''swim'')))) = Some (SaveFailed (Some StorageQuota)) \<and>
   \<not> result_success (fst (addTodo example_host full_storage example_inputs example_app
      (JStr (ascii ''swim'')))) \<and>
   getAllTodos (fst (snd (addTodo example_host full_storage example_inputs example_app
      (JStr (ascii ''swim''))))) = [task1, task2] \<and>
   result_error (fst (toggleTodo example_host full_storage example_app (JStr (ascii ''1''))))
     = Some (SaveFailed (Some StorageQuota)) \<and>
   \<not> result_success (fst (toggleTodo example_host full_storage example_app
      (JStr (ascii ''1'')))) \<and>
   getAllTodos (fst (snd (toggleTodo example_host full_storage example_app
      (JStr (ascii ''1''))))) = [task1, task2] \<and>
   result_error (fst (deleteTodo example_host full_storage example_app (JStr (ascii ''2''))))
     = Some (SaveFailed (Some StorageQuota)) \<and>
   \<not> result_success (fst (deleteTodo example_host full_storage example_app
      (JStr (ascii ''2'')))) \<and>
   getAllTodos (fst (snd (deleteTodo example_host full_storage example_app
      (JStr (ascii ''2''))))) = [task1, task2]"
proof -
  have all: "getAllTodos example_app = [task1, task2]"
    by (simp add: getAllTodos_def example_app_def)
  from rollback[of example_host full_storage example_app example_inputs
         "JStr (ascii ''swim'')" "JStr (ascii ''1'')", OF forced_example]
       rollback[of example_host full_storage example_app example_inputs
         "JStr (ascii ''swim'')" "JStr (ascii ''2'')", OF forced_example]
       forced_example all rollback_example_errors
  show ?thesis by simp
qed

section \<open>Adding a valid text\<close>

text \<open>
  Claim C2, as the code has it. For every string whose trimmed length is between 1 and
  200, which matches no unsafe pattern, and whose escaped form (the result of
  \<open>sanitizeText\<close>) is again at most 200 code units long, \<open>addTodo\<close> returns
  \<open>success: true\<close> and \<open>getTodoCount\<close> grows by exactly one, provided the save
  succeeds. The bound on the escaped form is needed because the constructor checks the
  length of the text after escaping.
\<close>

theorem add_valid_text:
  assumes lower: "1 \<le> length (trim t)" and upper: "length (trim t) \<le> 200"
      and safe: "\<not> containsUnsafeCharacters (trim t)"
      and fits: "length (sanitizeText (JStr t)) \<le> 200"
      and save: "\<And>xs. success (fst (saveTodos P ls (storageManager app) xs))"
  shows "result_success (fst (addTodo P ls inp app (JStr t))) \<and>
         getTodoCount (fst (snd (addTodo P ls inp app (JStr t)))) = getTodoCount app + 1"
proof -
  from lower upper safe have "isValid (validateTaskText (JStr t))"
    by (auto simp: validateTaskText_def Let_def ValidationResult_success_def)
  from addTodo_valid[OF this fits save] show ?thesis
    by (simp add: getTodoCount_def)
qed

theorem add_valid_text_witness:
  "1 \<le> length (trim (ascii ''swim'')) \<and> length (trim (ascii ''swim'')) \<le> 200 \<and>
   \<not> containsUnsafeCharacters (trim (ascii ''swim'')) \<and>
   length (sanitizeText (JStr (ascii ''swim''))) \<le> 200 \<and>
   (\<forall>xs. success (fst (saveTodos example_host working_storage (storageManager example_app) xs))) \<and>
   result_success (fst (addTodo example_host working_storage example_inputs example_app
      (JStr (ascii ''swim'')))) \<and>
   getTodoCount (fst (snd (addTodo example_host working_storage example_inputs example_app
      (JStr (ascii ''swim''))))) = 3"
proof -
  have f: "1 \<le> length (trim (ascii ''swim''))" "length (trim (ascii ''swim'')) \<le> 200"
    "\<not> containsUnsafeCharacters (trim (ascii ''swim''))"
    "length (sanitizeText (JStr (ascii ''swim''))) \<le> 200"
    by code_simp+
  have save: "\<And>xs. success (fst (saveTodos example_host working_storage (storageManager example_app) xs))"
    by (simp add: saveTodos_success_iff working_storage_def)
  have n: "getTodoCount example_app = 2"
    by (simp add: getTodoCount_def example_app_def)
  from add_valid_text[OF f save, of example_inputs] f save n show ?thesis by simp
qed

text \<open>
  Forty-one ampersands pass the validator, but their escaped form has 205 code units:
  the constructor throws and \<open>addTodo\<close> reports failure, with the count unchanged,
  although the save would have succeeded.
\<close>

theorem add_rejects_long_escaped_text:
  "1 \<le> length (trim ampersands) \<and> length (trim ampersands) \<le> 200 \<and>
   \<not> containsUnsafeCharacters (trim ampersands) \<and>
   success (fst (saveTodos example_host working_storage (storageManager example_app)
      (todos example_app))) \<and>
   \<not> result_success (fst (addTodo example_host working_storage example_inputs example_app
      (JStr ampersands))) \<and>
   result_error (fst (addTodo example_host working_storage example_inputs example_app
      (JStr ampersands))) = Some (AddFailed TextOver200) \<and>
   getTodoCount (fst (snd (addTodo example_host working_storage example_inputs example_app
      (JStr ampersands)))) = getTodoCount example_app"
proof -
  have ne: "sanitizeText (JStr ampersands) \<noteq> []"
    using ampersands_facts(3) by auto
  have new: "Todo_new (JStr (generateId (clock_id example_inputs) (random_suffix example_inputs)))
      (JStr (trim (sanitizeText (JStr ampersands)))) JUndefined (Some (clock_created example_inputs))
      = Inl (Error TextOver200)"
    using ne ampersands_facts(3)
      generateId_valid[of "clock_id example_inputs" "random_suffix example_inputs"]
    by (simp add: Todo_new_def sanitizeText_trimmed del: validateId.simps)
  have sv: "success (fst (saveTodos example_host working_storage (storageManager example_app)
      (todos example_app)))"
    by (simp add: saveTodos_success_iff working_storage_def)
  from ampersands_valid new sv ampersands_facts show ?thesis
    by (simp add: addTodo_def Let_def failure_def Error_def)
qed

section \<open>The invariant of the registry\<close>

text \<open>
  Claim C3, as the code has it. In every reachable state of the registry, every task
  has a text of trimmed length 1 to 200: that is what the constructor checks, for a
  task that \<open>addTodo\<close> creates as for a record that \<open>initialize\<close> loads. The unsafe
  patterns are checked by \<open>addTodo\<close> only, before escaping, and the escaped text matches
  none of them either: whatever the registry holds, a task that \<open>addTodo\<close> creates has
  a text of trimmed length 1 to 200 that matches no unsafe pattern. The records loaded
  from storage are not checked against the patterns. So a task of the registry that
  matches an unsafe pattern is one that the last \<open>initialize\<close> loaded, with the id,
  text and createdAt it was loaded with; and no task of the registry matches an unsafe
  pattern provided none of the tasks loaded by the last \<open>initialize\<close> does.
\<close>

theorem registry_invariant:
  assumes "reachable P L app"
  shows "(\<forall>t\<in>set (todos app).
            1 \<le> length (trim (todo_text t)) \<and> length (trim (todo_text t)) \<le> 200) \<and>
         ((\<forall>t\<in>set L. \<not> containsUnsafeCharacters (trim (todo_text t))) \<longrightarrow>
          (\<forall>t\<in>set (todos app). \<not> containsUnsafeCharacters (trim (todo_text t)))) \<and>
         (\<forall>t\<in>set (todos app). containsUnsafeCharacters (trim (todo_text t)) \<longrightarrow>
            (\<exists>l\<in>set L. todo_id l = todo_id t \<and> todo_text l = todo_text t \<and>
               createdAt l = createdAt t)) \<and>
         (addTodo P ls inp app v = (r, app', ls') \<and> result_success r \<longrightarrow>
            (\<exists>new. result_todo r = Some new \<and> todos app' = todos app @ [new] \<and>
               \<not> containsUnsafeCharacters (trim (todo_text new)) \<and>
               1 \<le> length (trim (todo_text new)) \<and> length (trim (todo_text new)) \<le> 200))"
proof -
  from reachable_wellFormed[OF assms]
  have "\<forall>t\<in>set (todos app).
          1 \<le> length (trim (todo_text t)) \<and> length (trim (todo_text t)) \<le> 200"
    by (auto simp: wellFormed_iff Suc_le_eq)
  moreover have "addTodo P ls inp app v = (r, app', ls') \<and> result_success r \<longrightarrow>
            (\<exists>new. result_todo r = Some new \<and> todos app' = todos app @ [new] \<and>
               \<not> containsUnsafeCharacters (trim (todo_text new)) \<and>
               1 \<le> length (trim (todo_text new)) \<and> length (trim (todo_text new)) \<le> 200)"
    using addTodo_success by blast
  ultimately show ?thesis
    using reachable_safe[OF assms] reachable_unsafe_loaded[OF assms] by blast
qed

text \<open>
  Two registries. One is initialized from a store with one good and one bad record, and
  a task is then added to it. The other is initialized from a store whose record is a
  script element: the task loaded matches an unsafe pattern, the task added afterwards
  does not.
\<close>

theorem registry_invariant_witness:
  "reachable example_host [task1]
     (fst (snd (addTodo example_host working_storage example_inputs loaded_app
        (JStr (ascii ''swim''))))) \<and>
   \<not> containsUnsafeCharacters (trim (todo_text task1)) \<and>
   map todo_text (todos (fst (snd (addTodo example_host working_storage example_inputs
      loaded_app (JStr (ascii ''swim'')))))) = [ascii ''walk'', ascii ''swim''] \<and>
   length (trim (ascii ''walk'')) = 4 \<and> length (trim (ascii ''swim'')) = 4 \<and>
   \<not> containsUnsafeCharacters (trim (ascii ''walk'')) \<and>
   \<not> containsUnsafeCharacters (trim (ascii ''swim'')) \<and>
   reachable example_host [script_task] script_app \<and>
   todos script_app = [script_task] \<and>
   containsUnsafeCharacters (trim (todo_text script_task)) \<and>
   result_success (fst (addTodo example_host working_storage example_inputs script_app
      (JStr (ascii ''swim'')))) \<and>
   map_option todo_text (result_todo (fst (addTodo example_host working_storage example_inputs
      script_app (JStr (ascii ''swim''))))) = Some (ascii ''swim'') \<and>
   map todo_text (todos (fst (snd (addTodo example_host working_storage example_inputs
      script_app (JStr (ascii ''swim'')))))) = [ascii ''<script>alert(1)</script>'', ascii ''swim'']"
proof -
  let ?after = "fst (snd (addTodo example_host working_storage example_inputs loaded_app
        (JStr (ascii ''swim''))))"
  have run: "addTodo example_host working_storage example_inputs loaded_app (JStr (ascii ''swim''))
      = (fst (addTodo example_host working_storage example_inputs loaded_app (JStr (ascii ''swim''))),
         ?after,
         snd (snd (addTodo example_host working_storage example_inputs loaded_app (JStr (ascii ''swim'')))))"
    by simp
  have reach: "reachable example_host [task1] ?after"
    by (rule reachable.added[OF loaded_app_reachable run])
  have valid: "isValid (validateTaskText (JStr (ascii ''swim'')))"
    and fits: "length (sanitizeText (JStr (ascii ''swim''))) \<le> 200"
    and san: "sanitizeText (JStr (ascii ''swim'')) = ascii ''swim''"
    by code_simp+
  have save: "\<And>xs. success (fst (saveTodos example_host working_storage (storageManager loaded_app) xs))"
    by (simp add: saveTodos_success_iff working_storage_def)
  have texts: "map todo_text (todos ?after) = [ascii ''walk'', ascii ''swim'']"
    using addTodo_valid[OF valid fits save, of example_inputs]
    by (simp add: loaded_app_todos san task1_def)
  have facts: "length (trim (ascii ''walk'')) = 4" "length (trim (ascii ''swim'')) = 4"
    "\<not> containsUnsafeCharacters (trim (ascii ''walk''))"
    by code_simp+
  have t1: "todo_text task1 = ascii ''walk''" by (simp add: task1_def)
  have mem: "ascii ''swim'' \<in> todo_text ` set (todos ?after)"
    using texts by (metis list.set_intros(1,2) list.set_map)
  from registry_invariant[OF reach] facts t1 mem have swim: "\<not> containsUnsafeCharacters (trim (ascii ''swim''))"
    by auto
  let ?run = "addTodo example_host working_storage example_inputs script_app (JStr (ascii ''swim''))"
  let ?new = "\<lparr>todo_id = generateId (clock_id example_inputs) (random_suffix example_inputs),
               todo_text = sanitizeText (JStr (ascii ''swim'')), completed = False,
               createdAt = clock_created example_inputs\<rparr>"
  have run2: "?run = (fst ?run, fst (snd ?run), snd (snd ?run))" by simp
  have save2: "\<And>xs. success (fst (saveTodos example_host working_storage (storageManager script_app) xs))"
    by (simp add: saveTodos_success_iff working_storage_def)
  from addTodo_valid[OF valid fits save2, of example_inputs]
  have ok: "result_success (fst ?run)" and td: "todos (fst (snd ?run)) = todos script_app @ [?new]"
    by simp_all
  from registry_invariant[where ls = working_storage and inp = example_inputs
      and v = "JStr (ascii ''swim'')" and r = "fst ?run" and app' = "fst (snd ?run)"
      and ls' = "snd (snd ?run)", OF script_app_reachable] run2 ok
  obtain new where new: "result_todo (fst ?run) = Some new"
      "todos (fst (snd ?run)) = todos script_app @ [new]"
    by blast
  from new(2) td have "new = ?new" by simp
  with new(1) have res: "map_option todo_text (result_todo (fst ?run)) = Some (ascii ''swim'')"
    by (simp add: san)
  have texts2: "map todo_text (todos (fst (snd ?run)))
      = [ascii ''<script>alert(1)</script>'', ascii ''swim'']"
    by (simp add: td script_app_todos san script_task_def)
  have u: "containsUnsafeCharacters (trim (todo_text script_task))"
    unfolding script_task_def by code_simp
  have t1s: "\<not> containsUnsafeCharacters (trim (todo_text task1))"
    using facts(3) by (simp add: t1)
  show ?thesis
    by (intro conjI) (rule reach t1s texts facts swim script_app_reachable script_app_todos u ok res texts2)+
qed

text \<open>
  A stored record whose text is a script element is loaded as it is: after
  \<open>initialize\<close> the registry holds a task that matches the first unsafe pattern.
\<close>

theorem loaded_task_matches_unsafe_pattern:
  "reachable example_host
     [\<lparr>todo_id = ascii ''1'', todo_text = ascii ''<script>alert(1)</script>'',
       completed = False, createdAt = 0\<rparr>]
     (snd (initialize example_host script_storage (TodoApp_new script_storage))) \<and>
   todos (snd (initialize example_host script_storage (TodoApp_new script_storage)))
     = [\<lparr>todo_id = ascii ''1'', todo_text = ascii ''<script>alert(1)</script>'',
         completed = False, createdAt = 0\<rparr>] \<and>
   containsUnsafeCharacters (trim (ascii ''<script>alert(1)</script>''))"
proof -
  have t: "todos (snd (initialize example_host script_storage (TodoApp_new script_storage)))
     = [\<lparr>todo_id = ascii ''1'', todo_text = ascii ''<script>alert(1)</script>'',
         completed = False, createdAt = 0\<rparr>]"
    by code_simp
  have u: "containsUnsafeCharacters (trim (ascii ''<script>alert(1)</script>''))"
    by code_simp
  have "initialize example_host script_storage (TodoApp_new script_storage)
      = (fst (initialize example_host script_storage (TodoApp_new script_storage)),
         snd (initialize example_host script_storage (TodoApp_new script_storage)))"
    by simp
  from reachable.initialized[OF reachable.created this] t u show ?thesis by simp
qed

section \<open>Save and load\<close>

text \<open>
  Claim C4, as the code has it. For every sequence of well-formed tasks, when the write
  to and the read from the medium do not raise (localStorage when it counts as
  available, the fallback buffer otherwise) and the host reads back the dates it wrote,
  \<open>saveTodos\<close> succeeds and \<open>loadTodos\<close> after it returns a success result whose
  data has the same length and, position by position, the same id, text and completed
  flag as the saved tasks.
\<close>

theorem save_load_roundtrip:
  assumes wf: "\<forall>t\<in>set tasks. wellFormed t"
      and dates: "\<forall>t\<in>set tasks. Date_new P (JStr (toISOString P (createdAt t))) \<noteq> None"
      and medium: "isLocalStorageAvailable sm \<longrightarrow> setItem_raises ls = None \<and> getItem_raises ls = None"
      and saved: "saveTodos P ls sm tasks = (r, sm', ls')"
  shows "success r \<and> success (loadTodos P ls' sm') \<and>
         (\<exists>loaded. data (loadTodos P ls' sm') = Some loaded \<and>
            length loaded = length tasks \<and>
            (\<forall>i<length tasks.
               todo_id (loaded ! i) = todo_id (tasks ! i) \<and>
               todo_text (loaded ! i) = todo_text (tasks ! i) \<and>
               completed (loaded ! i) = completed (tasks ! i)))"
proof -
  let ?reread = "map (\<lambda>t. t\<lparr>createdAt := the (Date_new P (JStr (toISOString P (createdAt t))))\<rparr>) tasks"
  have r: "success r"
    using saved medium saveTodos_success_iff[of P ls sm tasks] by auto
  have l: "loadTodos P ls' sm' = StorageResult_success (Some ?reread)"
  proof (cases "isLocalStorageAvailable sm")
    case True
    with medium saved have "sm' = sm" "ls' = ls\<lparr>item := Some (JSON_stringify (map (toJSON P) tasks))\<rparr>"
      by (auto simp: saveTodos_def setItem_def Let_def)
    with True medium have "readDataString ls' sm' =
        Inr (Some (JsonText (JArr (map record_json (map (toJSON P) tasks)))))"
      by (simp add: readDataString_def getItem_def JSON_stringify_def)
    from loadTodos_array[OF this] restore_toJSON[OF wf dates] show ?thesis by simp
  next
    case False
    with saved have s: "sm' = sm\<lparr>fallbackData := map (toJSON P) tasks\<rparr>" "ls' = ls"
      by (auto simp: saveTodos_def Let_def)
    show ?thesis
    proof (cases tasks)
      case Nil
      with s False show ?thesis
        by (simp add: loadTodos_def readDataString_def)
    next
      case (Cons a as)
      with s False have "readDataString ls' sm' =
          Inr (Some (JsonText (JArr (map record_json (map (toJSON P) tasks)))))"
        by (simp add: readDataString_def JSON_stringify_def)
      from loadTodos_array[OF this] restore_toJSON[OF wf dates] show ?thesis by simp
    qed
  qed
  from r l show ?thesis by (simp add: StorageResult_success_def)
qed

theorem save_load_roundtrip_witness:
  "wellFormed task1 \<and> wellFormed task2 \<and>
   Date_new example_host (JStr (toISOString example_host (createdAt task1))) = Some 0 \<and>
   Date_new example_host (JStr (toISOString example_host (createdAt task2))) = Some 0 \<and>
   isLocalStorageAvailable available_manager \<and>
   setItem_raises working_storage = None \<and> getItem_raises working_storage = None \<and>
   success (fst (saveTodos example_host working_storage available_manager [task1, task2])) \<and>
   loadTodos example_host
      (snd (snd (saveTodos example_host working_storage available_manager [task1, task2])))
      (fst (snd (saveTodos example_host working_storage available_manager [task1, task2])))
     = StorageResult_success (Some [task1, task2])"
proof -
  have wf: "\<forall>t\<in>set [task1, task2]. wellFormed t"
    using wellFormed_examples by simp
  have d: "Date_new example_host (JStr (toISOString example_host 0)) = Some 0"
    by (simp add: example_host_def)
  have dates: "\<forall>t\<in>set [task1, task2].
      Date_new example_host (JStr (toISOString example_host (createdAt t))) \<noteq> None"
    using d by (simp add: task1_def task2_def)
  have medium: "isLocalStorageAvailable available_manager \<longrightarrow>
      setItem_raises working_storage = None \<and> getItem_raises working_storage = None"
    by (simp add: working_storage_def)
  have saved: "saveTodos example_host working_storage available_manager [task1, task2] =
      (StorageResult_success None, available_manager,
       working_storage\<lparr>item := Some (JSON_stringify (map (toJSON example_host) [task1, task2]))\<rparr>)"
    by (simp add: saveTodos_def setItem_def Let_def working_storage_def available_manager_def)
  have rd: "readDataString
      (working_storage\<lparr>item := Some (JSON_stringify (map (toJSON example_host) [task1, task2]))\<rparr>)
      available_manager =
      Inr (Some (JsonText (JArr (map record_json (map (toJSON example_host) [task1, task2])))))"
    by (simp add: readDataString_def getItem_def working_storage_def available_manager_def
        JSON_stringify_def)
  have rb: "restore example_host (map record_json (map (toJSON example_host) [task1, task2]))
      = [task1, task2]"
    using restore_toJSON[OF wf dates] d by (simp add: task1_def task2_def)
  have c: "createdAt task1 = 0" "createdAt task2 = 0"
    by (simp_all add: task1_def task2_def)
  have env: "isLocalStorageAvailable available_manager"
    "setItem_raises working_storage = None" "getItem_raises working_storage = None"
    by (simp_all add: available_manager_def working_storage_def)
  have ok: "success (StorageResult_success None :: unit StorageResult)"
    by (simp add: StorageResult_success_def)
  from save_load_roundtrip[OF wf dates medium saved] wellFormed_examples d c env ok
       loadTodos_array[OF rd, of example_host] rb
  show ?thesis
    by (simp add: saved)
qed

text \<open>
  When the write raises, the sequence does not come back. With a full quota the save
  reports failure and the load returns what was stored before, here nothing. With a
  write refused for another reason the save reports success, having written the
  fallback buffer, but the load still reads localStorage and returns nothing.
\<close>

theorem load_after_failed_write:
  "wellFormed task1 \<and>
   Date_new example_host (JStr (toISOString example_host (createdAt task1))) = Some 0 \<and>
   \<not> success (fst (saveTodos example_host full_storage available_manager [task1])) \<and>
   data (loadTodos example_host
          (snd (snd (saveTodos example_host full_storage available_manager [task1])))
          (fst (snd (saveTodos example_host full_storage available_manager [task1]))))
     = Some [] \<and>
   success (fst (saveTodos example_host blocked_storage available_manager [task1])) \<and>
   data (loadTodos example_host
          (snd (snd (saveTodos example_host blocked_storage available_manager [task1])))
          (fst (snd (saveTodos example_host blocked_storage available_manager [task1]))))
     = Some []"
proof -
  have d: "Date_new example_host (JStr (toISOString example_host (createdAt task1))) = Some 0"
    by (simp add: example_host_def)
  have q: "saveTodos example_host full_storage available_manager [task1]
      = (StorageResult_error StorageQuota, available_manager, full_storage)"
    by (simp add: saveTodos_def setItem_def Let_def available_manager_def full_storage_def
        working_storage_def quota_error_def)
  have b: "saveTodos example_host blocked_storage available_manager [task1]
      = (StorageResult_success None,
         available_manager\<lparr>fallbackData := [toJSON example_host task1]\<rparr>, blocked_storage)"
    by (simp add: saveTodos_def setItem_def Let_def available_manager_def blocked_storage_def
        working_storage_def security_error_def ascii_def cu_def)
  have lq: "data (loadTodos example_host full_storage available_manager) = Some []"
    by (simp add: loadTodos_def readDataString_def getItem_def available_manager_def
        full_storage_def working_storage_def StorageResult_success_def)
  have lb: "data (loadTodos example_host blocked_storage
      (available_manager\<lparr>fallbackData := [toJSON example_host task1]\<rparr>)) = Some []"
    by (simp add: loadTodos_def readDataString_def getItem_def available_manager_def
        blocked_storage_def working_storage_def StorageResult_success_def)
  from wellFormed_examples(1) d lq lb show ?thesis
    by (simp add: q b StorageResult_success_def StorageResult_error_def)
qed

section \<open>Loading isolates corrupt records\<close>

text \<open>
  Claim C5, as the code has it. \<open>loadTodos\<close> always returns a result with
  \<open>success: true\<close>. When the stored text parses to an array, each record is converted
  on its own: the data are, in order, the tasks of the acceptable records, and every
  other record is dropped without touching the rest; so one acceptable and one
  unacceptable record load as exactly the task of the acceptable one, in either order.
  A record is acceptable when its id is a string with a character that is no white
  space, its text is a string of trimmed length 1 to 200, its completed member is a
  boolean or absent (then the task is pending), and its createdAt gives a valid date.
  The unsafe patterns of the validator are not among the conditions. When the text
  cannot be read, does not parse, or is no array, the result is success with an empty
  sequence.
\<close>

theorem load_isolates_corruption:
  "success (loadTodos P ls sm) \<and>
   (readDataString ls sm = Inr (Some (JsonText (JArr records))) \<longrightarrow>
      data (loadTodos P ls sm) = Some (map (task_of P) (filter (acceptable P) records))) \<and>
   (readDataString ls sm = Inr (Some (JsonText (JArr [good, bad]))) \<and>
    acceptable P good \<and> \<not> acceptable P bad \<longrightarrow>
      data (loadTodos P ls sm) = Some [task_of P good]) \<and>
   (readDataString ls sm = Inr (Some (JsonText (JArr [bad, good]))) \<and>
    acceptable P good \<and> \<not> acceptable P bad \<longrightarrow>
      data (loadTodos P ls sm) = Some [task_of P good]) \<and>
   ((\<forall>rs. readDataString ls sm \<noteq> Inr (Some (JsonText (JArr rs)))) \<longrightarrow>
      data (loadTodos P ls sm) = Some [])"
proof -
  have a: "readDataString ls sm = Inr (Some (JsonText (JArr rs))) \<Longrightarrow>
      data (loadTodos P ls sm) = Some (map (task_of P) (filter (acceptable P) rs))" for rs
    by (simp add: loadTodos_array restore_acceptable StorageResult_success_def)
  have b: "(\<forall>rs. readDataString ls sm \<noteq> Inr (Some (JsonText (JArr rs)))) \<Longrightarrow>
      data (loadTodos P ls sm) = Some []"
    by (simp add: loadTodos_other StorageResult_success_def)
  show ?thesis
    using loadTodos_success[of P ls sm] a[of records] a[of "[good, bad]"] a[of "[bad, good]"] b
    by auto
qed

theorem load_isolates_corruption_witness:
  "readDataString mixed_storage available_manager =
     Inr (Some (JsonText (JArr [record_json (toJSON example_host task1), JObj [(ascii ''id'', JNum 5)]]))) \<and>
   acceptable example_host (record_json (toJSON example_host task1)) \<and>
   \<not> acceptable example_host (JObj [(ascii ''id'', JNum 5)]) \<and>
   task_of example_host (record_json (toJSON example_host task1)) = task1 \<and>
   success (loadTodos example_host mixed_storage available_manager) \<and>
   data (loadTodos example_host mixed_storage available_manager) = Some [task1] \<and>
   readDataString garbled_storage available_manager = Inr (Some Malformed) \<and>
   data (loadTodos example_host garbled_storage available_manager) = Some []"
proof -
  have r: "readDataString mixed_storage available_manager =
     Inr (Some (JsonText (JArr [record_json (toJSON example_host task1), JObj [(ascii ''id'', JNum 5)]])))"
    by (simp add: readDataString_def getItem_def mixed_storage_def working_storage_def
        available_manager_def)
  have m: "readDataString garbled_storage available_manager = Inr (Some Malformed)"
    by (simp add: readDataString_def getItem_def garbled_storage_def working_storage_def
        available_manager_def)
  note inst = load_isolates_corruption[of example_host mixed_storage available_manager
          "[record_json (toJSON example_host task1), JObj [(ascii ''id'', JNum 5)]]"
          "record_json (toJSON example_host task1)" "JObj [(ascii ''id'', JNum 5)]"]
  from inst have s: "success (loadTodos example_host mixed_storage available_manager)"
    by (rule conjunct1)
  from inst r mixed_records(1,2)
  have "data (loadTodos example_host mixed_storage available_manager)
      = Some [task_of example_host (record_json (toJSON example_host task1))]"
    by blast
  then have d1: "data (loadTodos example_host mixed_storage available_manager) = Some [task1]"
    by (simp only: mixed_records(3))
  have "\<forall>rs. readDataString garbled_storage available_manager \<noteq> Inr (Some (JsonText (JArr rs)))"
    by (simp add: m)
  with load_isolates_corruption[of example_host garbled_storage available_manager]
  have d2: "data (loadTodos example_host garbled_storage available_manager) = Some []"
    by blast
  show ?thesis
    by (intro conjI) (rule r mixed_records s d1 m d2)+
qed

text \<open>
  A stored record whose text is a script element, which \<open>validateTaskText\<close> rejects, is
  not dropped: the load returns it as a task. A record with no \<open>completed\<close> member is
  kept too, as a pending task.
\<close>

theorem load_keeps_rejected_record:
  "\<not> isValid (validateTaskText (JStr (ascii ''<script>alert(1)</script>''))) \<and>
   data (loadTodos example_host script_storage available_manager) = Some [script_task] \<and>
   todo_text script_task = ascii ''<script>alert(1)</script>'' \<and>
   data (loadTodos example_host bare_storage available_manager)
     = Some [\<lparr>todo_id = ascii ''2'', todo_text = ascii ''read'', completed = False,
              createdAt = 0\<rparr>]"
proof -
  have "\<not> isValid (validateTaskText (JStr (ascii ''<script>alert(1)</script>'')))"
    by code_simp
  moreover have "data (loadTodos example_host script_storage available_manager) = Some [script_task]"
    by code_simp
  moreover have "data (loadTodos example_host bare_storage available_manager)
     = Some [\<lparr>todo_id = ascii ''2'', todo_text = ascii ''read'', completed = False,
              createdAt = 0\<rparr>]"
    by code_simp
  ultimately show ?thesis by (simp add: script_task_def)
qed

section \<open>A write that raises\<close>

text \<open>
  Claim C6, as the code has it. When the write to localStorage raises, \<open>saveTodos\<close>
  catches the exception and then distinguishes two cases. A QuotaExceededError is
  reported as a failure with the message for a full quota, and the fallback buffer
  is not written. Any other exception leads to one write of the serialized sequence to
  the fallback buffer, and the save reports success. In both cases the item in
  localStorage is unchanged.
\<close>

theorem save_write_exception:
  assumes "isLocalStorageAvailable sm" and "setItem_raises ls = Some e"
  shows "saveTodos P ls sm xs =
           (if exn_name e = ascii ''QuotaExceededError''
            then (StorageResult_error StorageQuota, sm, ls)
            else (StorageResult_success None, sm\<lparr>fallbackData := map (toJSON P) xs\<rparr>, ls))"
  using assms by (simp add: saveTodos_def setItem_def Let_def)

theorem save_write_exception_witness:
  "isLocalStorageAvailable available_manager \<and>
   setItem_raises full_storage = Some quota_error \<and>
   setItem_raises blocked_storage = Some security_error \<and>
   saveTodos example_host full_storage available_manager [task1]
     = (StorageResult_error StorageQuota, available_manager, full_storage) \<and>
   saveTodos example_host blocked_storage available_manager [task1]
     = (StorageResult_success None,
        available_manager\<lparr>fallbackData := [toJSON example_host task1]\<rparr>, blocked_storage)"
proof -
  have a: "isLocalStorageAvailable available_manager"
    by (simp add: available_manager_def)
  have q: "setItem_raises full_storage = Some quota_error"
    by (simp add: full_storage_def)
  have b: "setItem_raises blocked_storage = Some security_error"
    by (simp add: blocked_storage_def)
  have n: "exn_name security_error \<noteq> ascii ''QuotaExceededError''"
    by (simp add: security_error_def ascii_def cu_def)
  from save_write_exception[OF a q, of example_host "[task1]"]
       save_write_exception[OF a b, of example_host "[task1]"] a q b n
  show ?thesis by (simp add: quota_error_def)
qed

text \<open>
  With a full quota the buffer stays empty although there is a record to keep; with a
  write refused for another reason the save reports success.
\<close>

theorem save_quota_skips_fallback:
  "isLocalStorageAvailable available_manager \<and>
   setItem_raises full_storage = Some quota_error \<and>
   fallbackData (fst (snd (saveTodos example_host full_storage available_manager [task1]))) = [] \<and>
   map (toJSON example_host) [task1] \<noteq> [] \<and>
   setItem_raises blocked_storage = Some security_error \<and>
   success (fst (saveTodos example_host blocked_storage available_manager [task1]))"
  by (simp add: saveTodos_def setItem_def Let_def available_manager_def full_storage_def
      blocked_storage_def working_storage_def quota_error_def security_error_def
      StorageResult_success_def StorageResult_error_def ascii_def cu_def)

section \<open>Initialization\<close>

text \<open>
  Claim C7, as the code has it. \<open>initialize\<close> always sets \<open>initialized\<close>, whatever
  the load did. When the load reports failure or throws, the sequence is left empty, a
  warning is signalled and the result is false. The result is true exactly when the
  load reports success; \<open>loadTodos\<close> always does, so \<open>initialize\<close> returns true,
  also when localStorage is unavailable and the fallback buffer is in use: then a
  warning is signalled and the result is still true.
\<close>

theorem initialize_outcome:
  "initialized (snd (initialize_with outcome ls app)) \<and>
   (fst (initialize_with outcome ls app) \<longleftrightarrow> (\<exists>r. outcome = Inr r \<and> success r)) \<and>
   (\<not> fst (initialize_with outcome ls app) \<longrightarrow>
      todos (snd (initialize_with outcome ls app)) = [] \<and>
      (\<exists>w. warnings (snd (initialize_with outcome ls app)) = warnings app @ [w])) \<and>
   fst (initialize P ls app) \<and> initialized (snd (initialize P ls app)) \<and>
   (\<not> isLocalStorageAvailable (storageManager app) \<longrightarrow>
      warnings (snd (initialize P ls app)) = warnings app @ [WarnStorageUnavailable])"
proof -
  have load_ok: "success (loadTodos P ls (storageManager app))"
    by (simp add: loadTodos_def StorageResult_success_def split: sum.splits jsval.splits)
  have w: "initialized (snd (initialize_with outcome ls app)) \<and>
   (fst (initialize_with outcome ls app) \<longleftrightarrow> (\<exists>r. outcome = Inr r \<and> success r)) \<and>
   (\<not> fst (initialize_with outcome ls app) \<longrightarrow>
      todos (snd (initialize_with outcome ls app)) = [] \<and>
      (\<exists>w. warnings (snd (initialize_with outcome ls app)) = warnings app @ [w]))"
    by (cases outcome)
       (auto simp: initialize_with_def Let_def showStorageWarning_def getStorageInfo_def
          split: sum.splits)
  have i: "fst (initialize P ls app) \<and> initialized (snd (initialize P ls app)) \<and>
   (\<not> isLocalStorageAvailable (storageManager app) \<longrightarrow>
      warnings (snd (initialize P ls app)) = warnings app @ [WarnStorageUnavailable])"
    using load_ok
    by (auto simp: initialize_def initialize_with_def Let_def showStorageWarning_def
        getStorageInfo_def split: sum.splits)
  from w i show ?thesis by blast
qed

theorem initialize_outcome_witness:
  "\<not> isLocalStorageAvailable (storageManager (TodoApp_new missing_storage)) \<and>
   fst (initialize example_host missing_storage (TodoApp_new missing_storage)) \<and>
   initialized (snd (initialize example_host missing_storage (TodoApp_new missing_storage))) \<and>
   warnings (snd (initialize example_host missing_storage (TodoApp_new missing_storage)))
     = [WarnStorageUnavailable] \<and>
   \<not> fst (initialize_with (Inr (StorageResult_error StoredFormatInvalid)) working_storage
            (TodoApp_new working_storage)) \<and>
   initialized (snd (initialize_with (Inr (StorageResult_error StoredFormatInvalid)) working_storage
            (TodoApp_new working_storage))) \<and>
   todos (snd (initialize_with (Inr (StorageResult_error StoredFormatInvalid)) working_storage
            (TodoApp_new working_storage))) = []"
proof -
  have u: "\<not> isLocalStorageAvailable (storageManager (TodoApp_new missing_storage))"
    by (simp add: TodoApp_new_def StorageManager_new_def checkLocalStorageSupport_def
        missing_storage_def)
  have f: "\<not> (\<exists>r. (Inr (StorageResult_error StoredFormatInvalid) :: exn + (Todo list) StorageResult) = Inr r \<and> success r)"
    by (simp add: StorageResult_error_def)
  have e: "warnings (TodoApp_new missing_storage) = []"
    by (simp add: TodoApp_new_def)
  from initialize_outcome[of "Inr (StorageResult_error StoredFormatInvalid)" working_storage
         "TodoApp_new working_storage" example_host]
       initialize_outcome[of "Inr (StorageResult_success None)" missing_storage
         "TodoApp_new missing_storage" example_host] u f e
  show ?thesis by simp
qed

text \<open>
With localStorage missing, the result is true and one warning is signalled.
\<close>

theorem initialize_degraded_returns_true:
  "\<not> isLocalStorageAvailable (storageManager (TodoApp_new missing_storage)) \<and>
   fst (initialize example_host missing_storage (TodoApp_new missing_storage)) \<and>
   warnings (snd (initialize example_host missing_storage (TodoApp_new missing_storage)))
     = [WarnStorageUnavailable]"
  by (simp add: initialize_def initialize_with_def Let_def showStorageWarning_def
      getStorageInfo_def TodoApp_new_def StorageManager_new_def checkLocalStorageSupport_def
      missing_storage_def loadTodos_def readDataString_def StorageResult_success_def)

section \<open>Toggling\<close>

text \<open>
  Claim C8. In every reachable state of the registry that holds a task with id \<open>x\<close>,
  with the saves succeeding, \<open>toggleTodo\<close> finds a position \<open>i\<close> with that id and
  replaces the task there by a new one with the same id, text and createdAt and the
  inverted completed flag, leaving every other position as it was; a second
  \<open>toggleTodo\<close> with the same id brings the whole sequence, and so the task's completed
  flag, back to the original.
\<close>

theorem toggle_twice:
  assumes state: "reachable P L app"
      and present: "x \<in> todo_id ` set (todos app)"
      and save1: "\<And>xs. success (fst (saveTodos P ls (storageManager app) xs))"
      and first: "toggleTodo P ls app (JStr x) = (r1, app1, ls1)"
      and save2: "\<And>xs. success (fst (saveTodos P ls2 (storageManager app1) xs))"
      and second: "toggleTodo P ls2 app1 (JStr x) = (r2, app2, ls3)"
  shows "\<exists>i<length (todos app).
           todo_id (todos app ! i) = x \<and>
           result_success r1 \<and>
           todos app1 = (todos app)[i := (todos app ! i)\<lparr>completed := \<not> completed (todos app ! i)\<rparr>] \<and>
           result_todo r1 = Some (todos app1 ! i) \<and>
           todo_id (todos app1 ! i) = todo_id (todos app ! i) \<and>
           todo_text (todos app1 ! i) = todo_text (todos app ! i) \<and>
           createdAt (todos app1 ! i) = createdAt (todos app ! i) \<and>
           completed (todos app1 ! i) = (\<not> completed (todos app ! i)) \<and>
           result_success r2 \<and>
           todos app2 = todos app"
proof -
  from state have "\<forall>t\<in>set (todos app). wellFormed t"
    by (rule reachable_wellFormed)
  from toggle_twice_wellFormed[OF this present save1 first save2 second]
  show ?thesis .
qed

text \<open>
  The registry initialized from the store with one good record: its task is toggled
  twice.
\<close>

theorem toggle_twice_witness:
  "reachable example_host [task1] loaded_app \<and>
   todos loaded_app = [task1] \<and> todo_id task1 = ascii ''1'' \<and>
   (\<forall>xs. success (fst (saveTodos example_host working_storage (storageManager loaded_app) xs))) \<and>
   result_success (fst (toggleTodo example_host working_storage loaded_app (JStr (ascii ''1'')))) \<and>
   todos (fst (snd (toggleTodo example_host working_storage loaded_app (JStr (ascii ''1'')))))
     = [task1\<lparr>completed := True\<rparr>] \<and>
   result_success (fst (toggleTodo example_host working_storage toggled_loaded_app
      (JStr (ascii ''1'')))) \<and>
   todos (fst (snd (toggleTodo example_host working_storage toggled_loaded_app
      (JStr (ascii ''1''))))) = [task1]"
proof -
  have present: "ascii ''1'' \<in> todo_id ` set (todos loaded_app)"
    by (simp add: loaded_app_todos task1_def)
  have sm: "storageManager toggled_loaded_app = available_manager"
    by (simp add: toggled_loaded_app_def loaded_app_manager)
  have save1: "\<And>xs. success (fst (saveTodos example_host working_storage
      (storageManager loaded_app) xs))"
    and save2: "\<And>xs. success (fst (saveTodos example_host working_storage
      (storageManager toggled_loaded_app) xs))"
    by (simp_all add: sm loaded_app_manager saveTodos_success_iff working_storage_def)
  from toggle_twice[OF loaded_app_reachable present save1 toggle_loaded_first save2
         toggle_loaded_second]
  obtain i where i: "i < length (todos loaded_app)"
    and u: "todos toggled_loaded_app =
      (todos loaded_app)[i := (todos loaded_app ! i)\<lparr>completed := \<not> completed (todos loaded_app ! i)\<rparr>]"
    by blast
  from i have "i = 0" by (simp add: loaded_app_todos)
  with u have once: "todos toggled_loaded_app = [task1\<lparr>completed := True\<rparr>]"
    by (simp add: loaded_app_todos task1_def)
  have first: "fst (toggleTodo example_host working_storage loaded_app (JStr (ascii ''1'')))
      = \<lparr>result_success = True, result_todo = Some (task1\<lparr>completed := True\<rparr>),
         result_deletedTodo = None, result_error = None\<rparr>"
    "fst (snd (toggleTodo example_host working_storage loaded_app (JStr (ascii ''1''))))
      = toggled_loaded_app"
    by (simp_all only: toggle_loaded_first fst_conv snd_conv)
  have second: "fst (toggleTodo example_host working_storage toggled_loaded_app (JStr (ascii ''1'')))
      = \<lparr>result_success = True, result_todo = Some task1,
         result_deletedTodo = None, result_error = None\<rparr>"
    "fst (snd (toggleTodo example_host working_storage toggled_loaded_app (JStr (ascii ''1''))))
      = loaded_app"
    by (simp_all only: toggle_loaded_second fst_conv snd_conv)
  have id1: "todo_id task1 = ascii ''1''" by (simp add: task1_def)
  show ?thesis
    unfolding first second
    using loaded_app_reachable loaded_app_todos save1 once id1 by simp
qed

section \<open>The order of the validation rules\<close>



section \<open>The counts\<close>

text \<open>
  Claim C10. In every state of the registry the read projections split the sequence:
  \<open>getTodoCount\<close> is \<open>getCompletedCount\<close> plus \<open>getActiveCount\<close>, the two counts are
  the lengths of \<open>getCompletedTodos\<close> and \<open>getActiveTodos\<close>, every task of the first
  has \<open>completed = true\<close> and every task of the second has \<open>completed = false\<close>.
\<close>

theorem counts_partition:
  "getTodoCount app = getCompletedCount app + getActiveCount app \<and>
   getCompletedCount app = length (getCompletedTodos app) \<and>
   getActiveCount app = length (getActiveTodos app) \<and>
   (\<forall>t \<in> set (getCompletedTodos app). completed t) \<and>
   (\<forall>t \<in> set (getActiveTodos app). \<not> completed t)"
  using counts[of app]
  by (simp add: getCompletedCount_def getActiveCount_def getCompletedTodos_def
      getActiveTodos_def)

theorem counts_partition_witness:
  "getTodoCount example_app = 2 \<and> getCompletedCount example_app = 1 \<and>
   getActiveCount example_app = 1 \<and> getCompletedTodos example_app = [task2] \<and>
   getActiveTodos example_app = [task1] \<and> completed task2 \<and> \<not> completed task1"
proof -
  have c: "getCompletedTodos example_app = [task2]" "getActiveTodos example_app = [task1]"
    by (simp_all add: getCompletedTodos_def getActiveTodos_def example_app_def task1_def task2_def)
  have t: "getTodoCount example_app = 2"
    by (simp add: getTodoCount_def example_app_def)
  from counts_partition[of example_app] c t show ?thesis by simp
qed

end
